theory Spec2Isabelle
  imports Main "HOL-Library.Word" "HOL-Library.Multiset"
begin

unbundle bit_operations_syntax

text \<open>
  The repository holds two versions of the logs command. The older one
  (\<open>cli/logs/logs.go\<close>) reads each stream once, waits for its readers with a
  \<open>WaitGroup\<close> and closes the channel. The later one follows a service across
  disconnections and restarts, filters the lines a reconnect delivers again, and
  counts its running readers to know when to stop. This theory embeds the later
  version: \<open>parseLogLine\<close>, \<open>pickColor\<close>, \<open>isOldMessage\<close>, \<open>forwardLogs\<close>,
  \<open>printStatusMessage\<close>, \<open>printLogs\<close> with its \<open>flush\<close>, and the goroutines of
  \<open>Command.Run\<close>. The calls to the logger are left out; the functions of the Go
  standard library and of the terminal library are parameters or are modelled by
  their documented behaviour, as said where they appear.
\<close>

section \<open>Data model of the logs command\<close>

text \<open>
  A \<open>time.Time\<close> is used by the program only as an instant (\<open>Before\<close>, \<open>After\<close>,
  \<open>IsZero\<close>): it is modelled as the signed number of nanoseconds since the zero value
  \<open>time.Time{}\<close>, so the zero value is \<open>0\<close>.
\<close>

type_synonym time = int

definition zeroTime :: time where
  "zeroTime = 0"

definition Before :: "time \<Rightarrow> time \<Rightarrow> bool" where
  "Before t u = (t < u)"

definition After :: "time \<Rightarrow> time \<Rightarrow> bool" where
  "After t u = (u < t)"

definition IsZero :: "time \<Rightarrow> bool" where
  "IsZero t = (t = zeroTime)"

text \<open>
  Go error values: the two sentinels the program compares against (\<open>io.EOF\<close>,
  \<open>context.Canceled\<close>), \<open>errors.New\<close>, the wrapper \<open>errors.WithContext\<close>, and any
  other error a stream may return.
\<close>

datatype error =
    EOF
  | Canceled
  | New string
  | WithContext string error
  | StreamError string

record rawLogLine =
  error :: "error option"
  fromContainer :: string
  message :: string
  receivedAt :: time

record parsedLogLine =
  fromContainer :: string
  message :: string
  loggedAt :: time
  formatOverride :: string

section \<open>Timestamp codec: \<open>parseLogLine\<close>\<close>

text \<open>
  \<open>time.Parse\<close> belongs to the Go standard library; it is a parameter \<open>tp\<close> of the
  model, giving for a layout and a text the parsed instant, or \<open>None\<close> where
  \<open>time.Parse\<close> returns an error.
\<close>

datatype layout = RFC3339Nano | RFC3339

type_synonym time_Parse = "layout \<Rightarrow> string \<Rightarrow> time option"

text \<open>\<open>strings.SplitN(s, " ", 2)\<close>: one part when \<open>s\<close> has no space, otherwise the text
  before the first space and the text after it.\<close>

definition SplitN2 :: "string \<Rightarrow> string list" where
  "SplitN2 s =
     (if CHR '' '' \<in> set s
      then [takeWhile (\<lambda>c. c \<noteq> CHR '' '') s, tl (dropWhile (\<lambda>c. c \<noteq> CHR '' '') s)]
      else [s])"

definition parseLogLine :: "time_Parse \<Rightarrow> string \<Rightarrow> error + (string \<times> time)" where
  "parseLogLine tp rawMessage =
     (case SplitN2 rawMessage of
        [rawTimestamp, msg] \<Rightarrow>
          (case tp RFC3339Nano rawTimestamp of
             Some timestamp \<Rightarrow> Inr (msg, timestamp)
           | None \<Rightarrow>
               (case tp RFC3339 rawTimestamp of
                  Some timestamp \<Rightarrow> Inr (msg, timestamp)
                | None \<Rightarrow> Inl (New ''parse timestamp'')))
      | _ \<Rightarrow> Inl (New ''malformed line''))"

text \<open>A malformed line as the specification words it: no space separator, or a
  timestamp prefix that parses as neither RFC3339Nano nor RFC3339.\<close>

definition malformed :: "time_Parse \<Rightarrow> string \<Rightarrow> bool" where
  "malformed tp s \<longleftrightarrow>
     (CHR '' '' \<notin> set s \<or>
      (tp RFC3339Nano (takeWhile (\<lambda>c. c \<noteq> CHR '' '') s) = None \<and>
       tp RFC3339 (takeWhile (\<lambda>c. c \<noteq> CHR '' '') s) = None))"

section \<open>Color assigner: \<open>pickColor\<close>\<close>

text \<open>The color codes of the terminal library that \<open>colorList\<close> names.\<close>

datatype color = BLACK | RED | GREEN | YELLOW | BLUE | MAGENTA | CYAN | WHITE

definition colorList :: "color list" where
  "colorList = [BLUE, CYAN, GREEN, MAGENTA, RED, YELLOW]"

text \<open>\<open>hash/fnv\<close>'s \<open>New32\<close>: FNV-1 on 32 bits. \<open>Write\<close> multiplies by the prime and
  then xors the byte in, for each byte in turn; it never returns an error.\<close>

definition offset32 :: "32 word" where
  "offset32 = 2166136261"

definition prime32 :: "32 word" where
  "prime32 = 16777619"

definition fnv32_Write :: "32 word \<Rightarrow> string \<Rightarrow> 32 word" where
  "fnv32_Write h bs = foldl (\<lambda>hash c. (hash * prime32) XOR of_char c) h bs"

definition pickColor :: "string \<Rightarrow> color" where
  "pickColor container =
     (let hash = fnv32_Write offset32 container;
          idx = hash mod of_nat (length colorList)
      in colorList ! unat idx)"

text \<open>The hash as the specification words it: FNV-32 of the name's bytes, on natural
  numbers with the 32-bit wrap-around written out.\<close>

definition fnv32_spec :: "string \<Rightarrow> nat" where
  "fnv32_spec bs =
     foldl (\<lambda>h c. ((h * 16777619) mod 2 ^ 32) XOR (of_char c :: nat)) 2166136261 bs"

section \<open>Reconnect duplicate filter: \<open>isOldMessage\<close>\<close>

text \<open>
  The closure \<open>isOldMessage\<close> of \<open>forwardLogs\<close> reads the captured \<open>sinceTime\<close> and
  updates the captured \<open>lastMessageTime\<close>; the model takes both and returns the
  verdict with the new \<open>lastMessageTime\<close>.
\<close>

definition isOldMessage :: "time_Parse \<Rightarrow> time \<Rightarrow> time \<Rightarrow> string \<Rightarrow> bool \<times> time" where
  "isOldMessage tp sinceTime lastMessageTime msg =
     (if msg = [] then (False, lastMessageTime)
      else case parseLogLine tp msg of
             Inl err \<Rightarrow> (False, lastMessageTime)
           | Inr (m, timestamp) \<Rightarrow>
               if \<not> After timestamp sinceTime then (True, lastMessageTime)
               else if After timestamp lastMessageTime then (False, timestamp)
               else (False, lastMessageTime))"

section \<open>Windowed printer: \<open>flush\<close> and \<open>printLogs\<close>\<close>

text \<open>
  The body of the loop of \<open>flush\<close> over the window: what one raw line appends to
  \<open>parsedLogs\<close>. A raw line carrying an error is parsed only when it has a message;
  \<open>flush\<close> never sets \<open>formatOverride\<close>, which keeps its zero value, the empty string.
  (The calls to the logger are not modelled.)
\<close>

definition fallback :: "time_Parse \<Rightarrow> rawLogLine \<Rightarrow> parsedLogLine" where
  "fallback tp rawLog =
     (case parseLogLine tp (rawLogLine.message rawLog) of
        Inl err \<Rightarrow>
          \<lparr>fromContainer = rawLogLine.fromContainer rawLog,
           message = rawLogLine.message rawLog,
           loggedAt = receivedAt rawLog,
           formatOverride = []\<rparr>
      | Inr (msg, timestamp) \<Rightarrow>
          \<lparr>fromContainer = rawLogLine.fromContainer rawLog,
           message = msg,
           loggedAt = timestamp,
           formatOverride = []\<rparr>)"

definition parseRaw :: "time_Parse \<Rightarrow> rawLogLine \<Rightarrow> parsedLogLine list" where
  "parseRaw tp rawLog =
     (if error rawLog \<noteq> None
      then (if rawLogLine.message rawLog \<noteq> [] then [fallback tp rawLog] else [])
      else [fallback tp rawLog])"

definition parseWindow :: "time_Parse \<Rightarrow> rawLogLine list \<Rightarrow> parsedLogLine list" where
  "parseWindow tp window = concat (map (parseRaw tp) window)"

definition byLogTime :: "parsedLogLine \<Rightarrow> parsedLogLine \<Rightarrow> bool" where
  "byLogTime a b = Before (loggedAt a) (loggedAt b)"

text \<open>
  \<open>sort.SliceStable\<close> belongs to the Go standard library: a stable sort by the given
  \<open>less\<close>. It is modelled by stable insertion: an element goes after every element
  that is not greater, so equal elements keep their order.
\<close>

fun insertStable :: "('a \<Rightarrow> 'a \<Rightarrow> bool) \<Rightarrow> 'a \<Rightarrow> 'a list \<Rightarrow> 'a list" where
  "insertStable lt x [] = [x]"
| "insertStable lt x (y # ys) =
     (if lt y x then y # insertStable lt x ys else x # y # ys)"

definition SliceStable :: "('a \<Rightarrow> 'a \<Rightarrow> bool) \<Rightarrow> 'a list \<Rightarrow> 'a list" where
  "SliceStable lt xs = foldr (insertStable lt) xs []"

text \<open>
  What the print loop writes to standard output for one parsed line.
  \<open>goterm.Color\<close> belongs to the terminal library and is the parameter \<open>col\<close>. The
  separator between the source and the message is a space, the bytes of U+203A and a
  space.
\<close>

type_synonym goterm_Color = "string \<Rightarrow> color \<Rightarrow> string"

definition separator :: string where
  "separator = [CHR '' '', CHR 0xE2, CHR 0x80, CHR 0xBA, CHR '' '']"

definition printLine :: "goterm_Color \<Rightarrow> bool \<Rightarrow> parsedLogLine \<Rightarrow> string" where
  "printLine col hideServiceName lg =
     (if formatOverride lg \<noteq> [] then formatOverride lg
      else if hideServiceName then message lg @ [CHR 0x0A]
      else col (fromContainer lg) (pickColor (fromContainer lg))
             @ separator @ message lg @ [CHR 0x0A])"

definition sortedLogs :: "time_Parse \<Rightarrow> rawLogLine list \<Rightarrow> parsedLogLine list" where
  "sortedLogs tp window = SliceStable byLogTime (parseWindow tp window)"

text \<open>\<open>flush\<close>: the texts written to standard output for the window, in order. The
  caller clears the window.\<close>

definition flush :: "time_Parse \<Rightarrow> goterm_Color \<Rightarrow> bool \<Rightarrow> rawLogLine list \<Rightarrow> string list" where
  "flush tp col hideServiceName window =
     map (printLine col hideServiceName) (sortedLogs tp window)"

text \<open>
  \<open>printLogs\<close> is a single-threaded event loop. Its state is the window, whether a
  flush timer is pending (\<open>flushTrigger \<noteq> nil\<close>), what it has written, and where it
  stands: in the outer \<open>select\<close>, in the non-blocking drain loop of the \<open>ctx.Done\<close>
  branch, or returned (always with the error \<open>nil\<close>, after the deferred \<open>flush\<close>).
  An event is the case a \<open>select\<close> takes.
\<close>

datatype mode = Selecting | Draining | Returned

record printer =
  window :: "rawLogLine list"
  flushTrigger :: bool
  stdout :: "string list"
  mode :: mode

datatype event =
    Recv rawLogLine  \<comment> \<open>a line received from \<open>rawLogs\<close>\<close>
  | Closed           \<comment> \<open>the receive finds \<open>rawLogs\<close> closed\<close>
  | Timer            \<comment> \<open>\<open>flushTrigger\<close> fires\<close>
  | CtxDone          \<comment> \<open>\<open>ctx.Done()\<close> is ready\<close>
  | Default          \<comment> \<open>the \<open>default\<close> case: nothing is queued\<close>

definition printer0 :: printer where
  "printer0 = \<lparr>window = [], flushTrigger = False, stdout = [], mode = Selecting\<rparr>"

definition returnNil :: "time_Parse \<Rightarrow> goterm_Color \<Rightarrow> bool \<Rightarrow> printer \<Rightarrow> printer" where
  "returnNil tp col hide p =
     p\<lparr>stdout := stdout p @ flush tp col hide (window p), window := [], mode := Returned\<rparr>"

text \<open>One turn of the loop; \<open>None\<close> when the event cannot be taken in this state.\<close>

fun printLogs_step ::
  "time_Parse \<Rightarrow> goterm_Color \<Rightarrow> bool \<Rightarrow> event \<Rightarrow> printer \<Rightarrow> printer option" where
  "printLogs_step tp col hide ev p =
     (case mode p of
        Selecting \<Rightarrow>
          (case ev of
             Recv logLine \<Rightarrow> Some (p\<lparr>window := window p @ [logLine], flushTrigger := True\<rparr>)
           | Closed \<Rightarrow> Some (returnNil tp col hide p)
           | Timer \<Rightarrow>
               (if flushTrigger p
                then Some (p\<lparr>stdout := stdout p @ flush tp col hide (window p),
                             window := [], flushTrigger := False\<rparr>)
                else None)
           | CtxDone \<Rightarrow> Some (p\<lparr>mode := Draining\<rparr>)
           | Default \<Rightarrow> None)
      | Draining \<Rightarrow>
          (case ev of
             Recv logLine \<Rightarrow> Some (p\<lparr>window := window p @ [logLine]\<rparr>)
           | Closed \<Rightarrow> Some (returnNil tp col hide p)
           | Default \<Rightarrow> Some (returnNil tp col hide p)
           | _ \<Rightarrow> None)
      | Returned \<Rightarrow> None)"

fun printLogs_run ::
  "time_Parse \<Rightarrow> goterm_Color \<Rightarrow> bool \<Rightarrow> event list \<Rightarrow> printer \<Rightarrow> printer option" where
  "printLogs_run tp col hide [] p = Some p"
| "printLogs_run tp col hide (ev # evs) p =
     (case printLogs_step tp col hide ev p of
        None \<Rightarrow> None
      | Some p' \<Rightarrow> printLogs_run tp col hide evs p')"

section \<open>Source reader: \<open>forwardLogs\<close>\<close>

definition TrimSuffix_newline :: "string \<Rightarrow> string" where
  "TrimSuffix_newline s = (if s \<noteq> [] \<and> last s = CHR 0x0A then butlast s else s)"

text \<open>\<open>printStatusMessage\<close>: the text it writes to standard error.\<close>

definition printStatusMessage :: "goterm_Color \<Rightarrow> string \<Rightarrow> string \<Rightarrow> bool \<Rightarrow> string" where
  "printStatusMessage col service msg hideServiceName =
     (let servicePrefix =
            (if \<not> hideServiceName then col service (pickColor service) @ '' - '' else [])
      in servicePrefix @ msg @ [CHR 0x0A])"

text \<open>
  \<open>forwardLogs\<close> reacts to its environment: the log provider (opening a stream,
  \<open>ReadString\<close> with the clock read by \<open>time.Now\<close>) and the case each \<open>select\<close> takes.
  Its state is where it stands and its two local times.
\<close>

datatype env =
    StreamErr error                        \<comment> \<open>\<open>logsReq.Stream()\<close> returns an error\<close>
  | StreamOk                               \<comment> \<open>\<open>logsReq.Stream()\<close> returns a stream\<close>
  | ReadString string "error option" time  \<comment> \<open>\<open>reader.ReadString\<close> returns; \<open>time.Now()\<close>\<close>
  | SelDone                                \<comment> \<open>\<open>select\<close> takes \<open><-ctx.Done()\<close>\<close>
  | SelTimer                               \<comment> \<open>\<open>select\<close> takes \<open><-time.After(...)\<close>\<close>
  | SelExited                              \<comment> \<open>\<open>select\<close> takes \<open><-podExited\<close>\<close>

datatype fpc =
    Connect            \<comment> \<open>top of the outer loop, before \<open>logsReq.Stream()\<close>\<close>
  | OpenFailed error   \<comment> \<open>in the \<open>select\<close> after a failed open (following)\<close>
  | ReadLoop           \<comment> \<open>in \<open>readLoop\<close>, before \<open>ReadString\<close>\<close>
  | ReadFailed error   \<comment> \<open>in the \<open>select\<close> after a read error (following)\<close>
  | Return error       \<comment> \<open>\<open>forwardLogs\<close> has returned this error\<close>

record forwarder =
  fpc :: fpc
  lastMessageTime :: time
  sinceTime :: time

definition forwarder0 :: forwarder where
  "forwarder0 = \<lparr>fpc = Connect, lastMessageTime = zeroTime, sinceTime = zeroTime\<rparr>"

text \<open>The start of a connection attempt: on a reconnect \<open>sinceTime\<close> takes the time of
  the newest forwarded line.\<close>

definition setSinceTime :: "forwarder \<Rightarrow> forwarder" where
  "setSinceTime f =
     (if \<not> IsZero (lastMessageTime f) then f\<lparr>sinceTime := lastMessageTime f\<rparr> else f)"

text \<open>One \<open>ReadString\<close> result in \<open>readLoop\<close>: the verdict of the duplicate filter
  (called only when \<open>err == nil\<close>) with the new \<open>lastMessageTime\<close>.\<close>

definition discards :: "time_Parse \<Rightarrow> forwarder \<Rightarrow> string \<Rightarrow> error option \<Rightarrow> bool \<times> time" where
  "discards tp f msg err =
     (if err = None then isOldMessage tp (sinceTime f) (lastMessageTime f) msg
      else (False, lastMessageTime f))"

text \<open>One reaction of \<open>forwardLogs\<close>: the new state, the raw lines sent to
  \<open>combinedLogs\<close> and the texts written to standard error; \<open>None\<close> when the event
  cannot happen in this state.\<close>

fun forwardLogs_step ::
  "time_Parse \<Rightarrow> goterm_Color \<Rightarrow> bool \<Rightarrow> bool \<Rightarrow> string \<Rightarrow> env \<Rightarrow> forwarder
     \<Rightarrow> (forwarder \<times> rawLogLine list \<times> string list) option" where
  "forwardLogs_step tp col Follow hide service ev f =
     (case fpc f of
        Connect \<Rightarrow>
          (case ev of
             StreamErr err \<Rightarrow>
               (if \<not> Follow
                then Some ((setSinceTime f)\<lparr>fpc := Return (WithContext ''start logs stream'' err)\<rparr>, [], [])
                else Some ((setSinceTime f)\<lparr>fpc := OpenFailed err\<rparr>, [], []))
           | StreamOk \<Rightarrow> Some ((setSinceTime f)\<lparr>fpc := ReadLoop\<rparr>, [], [])
           | _ \<Rightarrow> None)
      | OpenFailed err \<Rightarrow>
          (case ev of
             SelDone \<Rightarrow> Some (f\<lparr>fpc := Return Canceled\<rparr>, [], [])
           | SelTimer \<Rightarrow> Some (f\<lparr>fpc := Connect\<rparr>, [], [])
           | SelExited \<Rightarrow>
               Some (f\<lparr>fpc := Return (WithContext ''start logs stream'' err)\<rparr>, [],
                     [printStatusMessage col service ''The container exited.'' hide])
           | _ \<Rightarrow> None)
      | ReadLoop \<Rightarrow>
          (case ev of
             ReadString msg err now \<Rightarrow>
               (let (old, lmt) = discards tp f msg err;
                    f' = f\<lparr>lastMessageTime := lmt\<rparr>;
                    line = \<lparr>error = err, rawLogLine.fromContainer = service,
                            rawLogLine.message = TrimSuffix_newline msg, receivedAt = now\<rparr>
                in if old then Some (f', [], [])
                   else (case err of
                           None \<Rightarrow> Some (f', [line], [])
                         | Some e \<Rightarrow>
                             (if \<not> Follow
                              then Some (f'\<lparr>fpc := Return (WithContext ''recv log stream'' e)\<rparr>,
                                         [line], [])
                              else Some (f'\<lparr>fpc := ReadFailed e\<rparr>, [line], []))))
           | _ \<Rightarrow> None)
      | ReadFailed err \<Rightarrow>
          (case ev of
             SelDone \<Rightarrow> Some (f\<lparr>fpc := Return Canceled\<rparr>, [], [])
           | SelTimer \<Rightarrow>
               Some (f\<lparr>fpc := Connect\<rparr>, [],
                     [printStatusMessage col service ''Disconnected from logs, reconnecting..'' hide])
           | SelExited \<Rightarrow>
               Some (f\<lparr>fpc := Return (WithContext ''recv log stream'' err)\<rparr>, [],
                     [printStatusMessage col service ''The container exited.'' hide])
           | _ \<Rightarrow> None)
      | Return err \<Rightarrow> None)"

text \<open>A run of \<open>forwardLogs\<close> over a list of events, collecting what it sends and
  writes.\<close>

fun forwardLogs_run ::
  "time_Parse \<Rightarrow> goterm_Color \<Rightarrow> bool \<Rightarrow> bool \<Rightarrow> string \<Rightarrow> env list \<Rightarrow> forwarder
     \<Rightarrow> (forwarder \<times> rawLogLine list \<times> string list) option" where
  "forwardLogs_run tp col Follow hide service [] f = Some (f, [], [])"
| "forwardLogs_run tp col Follow hide service (ev # evs) f =
     (case forwardLogs_step tp col Follow hide service ev f of
        None \<Rightarrow> None
      | Some (f', sent, errs) \<Rightarrow>
          (case forwardLogs_run tp col Follow hide service evs f' of
             None \<Rightarrow> None
           | Some (f'', sent', errs') \<Rightarrow> Some (f'', sent @ sent', errs @ errs')))"

section \<open>\<open>Command.Run\<close>: the goroutines and the completion counter\<close>

text \<open>
  \<open>Run\<close> starts one goroutine per service around \<open>forwardLogs\<close>, a watcher goroutine
  that waits on \<open>runningCountCond\<close> until \<open>runningCount\<close> is not positive and then
  cancels the context, a goroutine that cancels the context at an interrupt, and
  runs \<open>printLogs\<close> itself. The model is an interleaving of their steps: a label names
  the goroutine that moves and what its environment answers, and \<open>step\<close> gives the
  next state, or \<open>None\<close> when that goroutine cannot move so (it is blocked, or the case
  of the \<open>select\<close> is not ready). What \<open>Run\<close> does before it starts the goroutines
  (the connection to the cluster, \<open>CheckServiceStarted\<close>, the status updater) is not
  modelled: \<open>init\<close> is the state in which the goroutines have just been started.
  \<open>Run\<close> never closes \<open>combinedLogs\<close>, so no step sets \<open>closed\<close>.
\<close>

record Command =
  Services :: "string list"
  Follow :: bool

definition hideServiceName :: "Command \<Rightarrow> bool" where
  "hideServiceName cmd = (length (Services cmd) = 1)"

datatype proc = Reader nat | Watcher

text \<open>Where the goroutine of one service stands in its loop.\<close>

datatype gpc =
    Forwarding forwarder  \<comment> \<open>inside \<open>cmd.forwardLogs\<close>\<close>
  | LockDec error         \<comment> \<open>\<open>forwardLogs\<close> returned the error; before \<open>Lock()\<close>\<close>
  | Dec error             \<comment> \<open>holds the lock, before \<open>runningCount--\<close>\<close>
  | UnlockDec error       \<comment> \<open>holds the lock, after the decrement and \<open>Signal\<close>, before \<open>Unlock()\<close>\<close>
  | WaitRestart           \<comment> \<open>in the \<open>select\<close> on \<open>ctx.Done()\<close> and \<open>Running()\<close>\<close>
  | LockInc               \<comment> \<open>the container restarted; before \<open>Lock()\<close>\<close>
  | Inc                   \<comment> \<open>holds the lock, before \<open>runningCount++\<close>\<close>
  | UnlockInc             \<comment> \<open>holds the lock, after the increment, before \<open>Unlock()\<close>\<close>
  | Exited                \<comment> \<open>the goroutine has returned\<close>

text \<open>Where the watcher goroutine stands.\<close>

datatype wpc =
    WLock     \<comment> \<open>before \<open>Lock()\<close>\<close>
  | WCheck    \<comment> \<open>holds the lock, at the loop condition \<open>runningCount > 0\<close>\<close>
  | WWait     \<comment> \<open>parked in \<open>Wait()\<close>, the lock released\<close>
  | WWoken    \<comment> \<open>signalled; \<open>Wait()\<close> must take the lock again to return\<close>
  | WUnlock   \<comment> \<open>the loop has ended; holds the lock, before \<open>Unlock()\<close>\<close>
  | WCancel   \<comment> \<open>before \<open>cancel()\<close>\<close>
  | WDone

record state =
  readers :: "gpc list"
  runningCount :: int
  mutex :: "proc option"
  watcher :: wpc
  cancelled :: bool
  chan :: "rawLogLine list"
  closed :: bool
  prt :: printer
  stderr :: "string list"

datatype act =
    Fwd env     \<comment> \<open>a reaction of \<open>forwardLogs\<close>\<close>
  | Lock        \<comment> \<open>\<open>runningCountCond.L.Lock()\<close>\<close>
  | Access      \<comment> \<open>the decrement (with its \<open>Signal\<close>) or the increment\<close>
  | Unlock      \<comment> \<open>\<open>runningCountCond.L.Unlock()\<close>, and what follows up to the next wait\<close>
  | GoDone      \<comment> \<open>the goroutine's \<open>select\<close> takes \<open><-ctx.Done()\<close>\<close>
  | GoRunning   \<comment> \<open>the goroutine's \<open>select\<close> takes \<open><-Running()\<close>\<close>

datatype psel = SRecv | STimer | SDone

datatype label =
    R nat act   \<comment> \<open>the goroutine of the service at this index\<close>
  | W           \<comment> \<open>the watcher goroutine\<close>
  | Interrupt   \<comment> \<open>the signal goroutine: an interrupt arrives and it cancels\<close>
  | P psel      \<comment> \<open>\<open>printLogs\<close>: the case of its \<open>select\<close>\<close>

definition capacity :: "Command \<Rightarrow> nat" where
  "capacity cmd = length (Services cmd) * 32"

definition init :: "Command \<Rightarrow> state" where
  "init cmd =
     \<lparr>readers = replicate (length (Services cmd)) (Forwarding forwarder0),
      runningCount = int (length (Services cmd)),
      mutex = None,
      watcher = WLock,
      cancelled = False,
      chan = [],
      closed = False,
      prt = printer0,
      stderr = []\<rparr>"

text \<open>\<open>Signal\<close> wakes the goroutine parked in \<open>Wait()\<close>, if there is one.\<close>

definition Signal :: "wpc \<Rightarrow> wpc" where
  "Signal w = (if w = WWait then WWoken else w)"

text \<open>A step of the goroutine of service \<open>i\<close>. A reaction of \<open>forwardLogs\<close> with the
  send that ends it is one step, which cannot be taken while the channel is full
  (the send blocks); \<open><-ctx.Done()\<close> is ready only once the context is cancelled.
  When \<open>forwardLogs\<close> returns, the goroutine stands before its \<open>Lock()\<close>.\<close>

definition reader_step ::
  "time_Parse \<Rightarrow> goterm_Color \<Rightarrow> Command \<Rightarrow> nat \<Rightarrow> act \<Rightarrow> state \<Rightarrow> state option" where
  "reader_step tp col cmd i a s =
     (if i < length (readers s) \<and> i < length (Services cmd) then
        (case (readers s ! i, a) of
           (Forwarding f, Fwd ev) \<Rightarrow>
             (case forwardLogs_step tp col (Follow cmd) (hideServiceName cmd) (Services cmd ! i) ev f of
                None \<Rightarrow> None
              | Some (f', sent, errs) \<Rightarrow>
                  if (ev = SelDone \<and> \<not> cancelled s)
                     \<or> (sent \<noteq> [] \<and> capacity cmd \<le> length (chan s))
                  then None
                  else Some (s\<lparr>readers := (readers s)[i :=
                                   (case fpc f' of Return err \<Rightarrow> LockDec err | _ \<Rightarrow> Forwarding f')],
                               chan := chan s @ sent,
                               stderr := stderr s @ errs\<rparr>))
         | (LockDec err, Lock) \<Rightarrow>
             (if mutex s = None
              then Some (s\<lparr>readers := (readers s)[i := Dec err], mutex := Some (Reader i)\<rparr>)
              else None)
         | (Dec err, Access) \<Rightarrow>
             Some (s\<lparr>readers := (readers s)[i := UnlockDec err],
                     runningCount := runningCount s - 1,
                     watcher := (if runningCount s - 1 = 0 then Signal (watcher s) else watcher s)\<rparr>)
         | (UnlockDec err, Unlock) \<Rightarrow>
             Some (s\<lparr>readers := (readers s)[i :=
                              (if err = Canceled then Exited
                               else if \<not> Follow cmd then Exited
                               else WaitRestart)],
                     mutex := None\<rparr>)
         | (WaitRestart, GoDone) \<Rightarrow>
             (if cancelled s then Some (s\<lparr>readers := (readers s)[i := Exited]\<rparr>) else None)
         | (WaitRestart, GoRunning) \<Rightarrow>
             Some (s\<lparr>readers := (readers s)[i := LockInc],
                     stderr := stderr s @
                       [printStatusMessage col (Services cmd ! i)
                          ''The service has restarted, reconnecting...'' (hideServiceName cmd)]\<rparr>)
         | (LockInc, Lock) \<Rightarrow>
             (if mutex s = None
              then Some (s\<lparr>readers := (readers s)[i := Inc], mutex := Some (Reader i)\<rparr>)
              else None)
         | (Inc, Access) \<Rightarrow>
             Some (s\<lparr>readers := (readers s)[i := UnlockInc],
                     runningCount := runningCount s + 1\<rparr>)
         | (UnlockInc, Unlock) \<Rightarrow>
             Some (s\<lparr>readers := (readers s)[i := Forwarding forwarder0], mutex := None\<rparr>)
         | _ \<Rightarrow> None)
      else None)"

text \<open>A step of the watcher goroutine.\<close>

definition watcher_step :: "state \<Rightarrow> state option" where
  "watcher_step s =
     (case watcher s of
        WLock \<Rightarrow>
          (if mutex s = None then Some (s\<lparr>watcher := WCheck, mutex := Some Watcher\<rparr>) else None)
      | WCheck \<Rightarrow>
          (if runningCount s > 0
           then Some (s\<lparr>watcher := WWait, mutex := None\<rparr>)
           else Some (s\<lparr>watcher := WUnlock\<rparr>))
      | WWait \<Rightarrow> None
      | WWoken \<Rightarrow>
          (if mutex s = None then Some (s\<lparr>watcher := WCheck, mutex := Some Watcher\<rparr>) else None)
      | WUnlock \<Rightarrow> Some (s\<lparr>watcher := WCancel, mutex := None\<rparr>)
      | WCancel \<Rightarrow> Some (s\<lparr>watcher := WDone, cancelled := True\<rparr>)
      | WDone \<Rightarrow> None)"

text \<open>What the chosen case of the \<open>select\<close> of \<open>printLogs\<close> finds: a receive takes the
  head of the channel, finds it closed, or (only in the drain loop, which has a
  \<open>default\<close> case) finds nothing queued.\<close>

definition printer_event :: "psel \<Rightarrow> state \<Rightarrow> event option" where
  "printer_event sel s =
     (case sel of
        SRecv \<Rightarrow>
          (case chan s of
             logLine # rest \<Rightarrow> Some (Recv logLine)
           | [] \<Rightarrow> (if closed s then Some Closed
                    else if mode (prt s) = Draining then Some Default
                    else None))
      | STimer \<Rightarrow> Some Timer
      | SDone \<Rightarrow> (if cancelled s then Some CtxDone else None))"

definition printer_step ::
  "time_Parse \<Rightarrow> goterm_Color \<Rightarrow> Command \<Rightarrow> psel \<Rightarrow> state \<Rightarrow> state option" where
  "printer_step tp col cmd sel s =
     (case printer_event sel s of
        None \<Rightarrow> None
      | Some ev \<Rightarrow>
          (case printLogs_step tp col (hideServiceName cmd) ev (prt s) of
             None \<Rightarrow> None
           | Some p' \<Rightarrow>
               Some (s\<lparr>prt := p', chan := (case ev of Recv logLine \<Rightarrow> tl (chan s) | _ \<Rightarrow> chan s)\<rparr>)))"

definition step :: "time_Parse \<Rightarrow> goterm_Color \<Rightarrow> Command \<Rightarrow> label \<Rightarrow> state \<Rightarrow> state option" where
  "step tp col cmd lbl s =
     (case lbl of
        R i a \<Rightarrow> reader_step tp col cmd i a s
      | W \<Rightarrow> watcher_step s
      | Interrupt \<Rightarrow> Some (s\<lparr>cancelled := True\<rparr>)
      | P sel \<Rightarrow> printer_step tp col cmd sel s)"

fun run :: "time_Parse \<Rightarrow> goterm_Color \<Rightarrow> Command \<Rightarrow> label list \<Rightarrow> state \<Rightarrow> state option" where
  "run tp col cmd [] s = Some s"
| "run tp col cmd (lbl # lbls) s =
     (case step tp col cmd lbl s of
        None \<Rightarrow> None
      | Some s' \<Rightarrow> run tp col cmd lbls s')"

section \<open>Invariants of \<open>Run\<close>\<close>

text \<open>A goroutine counts as running from the call of \<open>forwardLogs\<close> up to its
  decrement, and again from its increment on.\<close>

fun running :: "gpc \<Rightarrow> bool" where
  "running (Forwarding f) = True"
| "running (LockDec e) = True"
| "running (Dec e) = True"
| "running UnlockInc = True"
| "running g = False"

text \<open>The places between \<open>Lock()\<close> and \<open>Unlock()\<close>, for a service's goroutine and for
  the watcher.\<close>

fun holds :: "gpc \<Rightarrow> bool" where
  "holds (Dec e) = True"
| "holds (UnlockDec e) = True"
| "holds Inc = True"
| "holds UnlockInc = True"
| "holds g = False"

fun wholds :: "wpc \<Rightarrow> bool" where
  "wholds WCheck = True"
| "wholds WUnlock = True"
| "wholds w = False"

text \<open>The invariant of every run: one goroutine per service; \<open>runningCount\<close> is the
  number of running goroutines; the mutex is held by exactly the goroutine that is
  between \<open>Lock()\<close> and \<open>Unlock()\<close>; the watcher is parked only while the count is
  positive.\<close>

definition counted :: "state \<Rightarrow> bool" where
  "counted s \<longleftrightarrow> runningCount s = int (length (filter running (readers s)))"

definition locked :: "state \<Rightarrow> bool" where
  "locked s \<longleftrightarrow>
     list_all (\<lambda>i. holds (readers s ! i) = (mutex s = Some (Reader i))) [0..<length (readers s)]
     \<and> wholds (watcher s) = (mutex s = Some Watcher)
     \<and> (case mutex s of Some (Reader i) \<Rightarrow> i < length (readers s) | _ \<Rightarrow> True)"

definition parked :: "state \<Rightarrow> bool" where
  "parked s \<longleftrightarrow> (if watcher s = WWait then 0 < runningCount s else True)"

definition invariant :: "Command \<Rightarrow> state \<Rightarrow> bool" where
  "invariant cmd s \<longleftrightarrow>
     length (readers s) = length (Services cmd) \<and> counted s \<and> locked s \<and> parked s"

text \<open>The effect of a step on \<open>runningCount\<close>: the decrement and the increment are the
  \<open>Access\<close> steps of a goroutine that stands at \<open>Dec\<close> or at \<open>Inc\<close>.\<close>

definition delta :: "label \<Rightarrow> state \<Rightarrow> int" where
  "delta lbl s =
     (case lbl of
        R i Access \<Rightarrow>
          (case readers s ! i of Dec e \<Rightarrow> - 1 | Inc \<Rightarrow> 1 | _ \<Rightarrow> 0)
      | _ \<Rightarrow> 0)"

text \<open>The goroutine that reads or writes \<open>runningCount\<close> in a step, if any: a service's
  goroutine in its \<open>Access\<close> step, the watcher at its loop condition.\<close>

definition accessor :: "label \<Rightarrow> state \<Rightarrow> proc option" where
  "accessor lbl s =
     (case lbl of
        R i Access \<Rightarrow> Some (Reader i)
      | W \<Rightarrow> (if watcher s = WCheck then Some Watcher else None)
      | _ \<Rightarrow> None)"

section \<open>Completion of \<open>Run\<close> when not following\<close>

fun forwarding :: "gpc \<Rightarrow> bool" where
  "forwarding (Forwarding f) = True"
| "forwarding g = False"

text \<open>The places of a goroutine that only a following command reaches.\<close>

fun restarting :: "gpc \<Rightarrow> bool" where
  "restarting WaitRestart = True"
| "restarting LockInc = True"
| "restarting Inc = True"
| "restarting UnlockInc = True"
| "restarting g = False"

text \<open>The places of the watcher after its loop.\<close>

fun wpast :: "wpc \<Rightarrow> bool" where
  "wpast WUnlock = True"
| "wpast WCancel = True"
| "wpast WDone = True"
| "wpast w = False"

text \<open>What holds in every state of a run that is not following and has no interrupt:
  the watcher is past its loop only when every goroutine has exited; the context is
  cancelled exactly when the watcher is done; \<open>printLogs\<close> has left its \<open>select\<close> only
  after the cancellation; the channel is not closed; when \<open>printLogs\<close> has returned,
  nothing is left in the channel or in the window.\<close>

definition completing :: "state \<Rightarrow> bool" where
  "completing s \<longleftrightarrow>
     list_all (\<lambda>g. \<not> restarting g) (readers s)
     \<and> (if wpast (watcher s) then list_all (\<lambda>g. g = Exited) (readers s) else True)
     \<and> cancelled s = (watcher s = WDone)
     \<and> (if mode (prt s) = Selecting then True else cancelled s)
     \<and> \<not> closed s
     \<and> (if mode (prt s) = Returned then chan s = [] \<and> window (prt s) = [] else True)"

text \<open>Every goroutine has returned from \<open>forwardLogs\<close>.\<close>

definition allReturned :: "state \<Rightarrow> bool" where
  "allReturned s \<longleftrightarrow> list_all (\<lambda>g. \<not> forwarding g) (readers s)"

text \<open>A bound on the steps that remain once every goroutine has returned from
  \<open>forwardLogs\<close>.\<close>

fun rank :: "gpc \<Rightarrow> nat" where
  "rank (LockDec e) = 6"
| "rank (Dec e) = 5"
| "rank (UnlockDec e) = 1"
| "rank g = 0"

fun wrank :: "wpc \<Rightarrow> nat" where
  "wrank WLock = 8"
| "wrank WWoken = 7"
| "wrank WCheck = 6"
| "wrank WWait = 4"
| "wrank WUnlock = 2"
| "wrank WCancel = 1"
| "wrank WDone = 0"

fun mrank :: "mode \<Rightarrow> nat" where
  "mrank Selecting = 2"
| "mrank Draining = 1"
| "mrank Returned = 0"

definition remaining :: "state \<Rightarrow> nat" where
  "remaining s =
     sum_list (map rank (readers s)) + wrank (watcher s) + 2 * length (chan s)
       + (if flushTrigger (prt s) then 1 else 0) + mrank (mode (prt s))"

section \<open>An environment for the examples\<close>

text \<open>
  The examples below need answers of the two library functions. \<open>exampleParse\<close> gives
  the instants of three timestamps 0, 50 and 150 milliseconds after the start of
  2020 (in nanoseconds since the zero time) and fails on every other text;
  \<open>exampleColor\<close> leaves the text as it is.
\<close>

definition exampleParse :: time_Parse where
  "exampleParse lay s =
     (if s = ''2020-01-01T00:00:00Z'' then Some 63713433600000000000
      else if s = ''2020-01-01T00:00:00.05Z'' then Some 63713433600050000000
      else if s = ''2020-01-01T00:00:00.15Z'' then Some 63713433600150000000
      else None)"

definition exampleColor :: goterm_Color where
  "exampleColor s c = s"

text \<open>A raw line read without error, and the three lines of the examples.\<close>

definition rawLine :: "string \<Rightarrow> string \<Rightarrow> time \<Rightarrow> rawLogLine" where
  "rawLine c m t = \<lparr>error = None, rawLogLine.fromContainer = c, rawLogLine.message = m,
                    receivedAt = t\<rparr>"

definition web0 :: rawLogLine where
  "web0 = rawLine ''web'' ''2020-01-01T00:00:00Z listening'' 63713433600200000000"

definition db50 :: rawLogLine where
  "db50 = rawLine ''db'' ''2020-01-01T00:00:00.05Z ready'' 63713433600100000000"

definition junk :: rawLogLine where
  "junk = rawLine ''web'' ''not-a-timestamp hello'' 63713433600020000000"

section \<open>The timestamp codec and the color assigner\<close>

lemma parseLogLine_Inl_iff:
  "(\<exists>e. parseLogLine tp s = Inl e) \<longleftrightarrow> malformed tp s"
  by (auto simp: parseLogLine_def SplitN2_def malformed_def split: option.splits)

lemma malformed_parse: "malformed tp s \<Longrightarrow> \<exists>e. parseLogLine tp s = Inl e"
  by (simp add: parseLogLine_Inl_iff)

lemma malformed_junk: "malformed exampleParse ''not-a-timestamp hello''"
  by (simp add: malformed_def exampleParse_def)

lemma of_char_lt_256: "(of_char c :: nat) < 256"
  by (metis of_char_mod_256 mod_less_divisor zero_less_numeral)

lemma unat_of_char: "unat (of_char c :: 32 word) = (of_char c :: nat)"
proof -
  have "(of_char c :: nat) < 4294967296"
    using of_char_lt_256 [of c] by linarith
  then have "(of_char c :: nat) mod 4294967296 = of_char c"
    by (rule mod_less)
  then have "unat (of_nat (of_char c :: nat) :: 32 word) = (of_char c :: nat)"
    by (simp add: unat_of_nat)
  then show ?thesis by (simp add: of_nat_of_char)
qed

lemma unat_fnv32_round:
  "unat ((h * prime32) XOR (of_char c :: 32 word))
     = ((unat h * 16777619) mod 2 ^ 32) XOR (of_char c :: nat)"
  by (simp add: prime32_def unsigned_xor_eq unat_word_ariths unat_of_char)

lemma unat_fnv32_Write:
  "unat (fnv32_Write h bs) =
     foldl (\<lambda>h c. ((h * 16777619) mod 2 ^ 32) XOR (of_char c :: nat)) (unat h) bs"
proof (induction bs arbitrary: h)
  case Nil
  show ?case by (simp add: fnv32_Write_def)
next
  case (Cons b bs)
  have "fnv32_Write h (b # bs) = fnv32_Write ((h * prime32) XOR of_char b) bs"
    by (simp add: fnv32_Write_def)
  then show ?case using Cons.IH [of "(h * prime32) XOR of_char b"]
    by (simp add: unat_fnv32_round)
qed

lemma unat_fnv32: "unat (fnv32_Write offset32 bs) = fnv32_spec bs"
  by (simp add: unat_fnv32_Write fnv32_spec_def offset32_def)

lemma length_colorList: "length colorList = 6"
  by (simp add: colorList_def)

lemma pickColor_index: "pickColor n = colorList ! (fnv32_spec n mod 6)"
  by (simp add: pickColor_def Let_def length_colorList unat_mod unat_fnv32)

text \<open>
  Claim C9. \<open>pickColor\<close> depends on the source name alone (it is a function of the
  name, reading no state, so equal names give equal colors): the palette has six
  colors, the index is the FNV-32 hash of the name modulo the palette size, the
  index is within the palette, and the result is a color of the palette.
\<close>

theorem pickColor_palette:
  "length colorList = 6
   \<and> fnv32_spec container mod length colorList < length colorList
   \<and> pickColor container = colorList ! (fnv32_spec container mod length colorList)
   \<and> pickColor container \<in> set colorList"
  by (simp add: pickColor_index length_colorList)

theorem pickColor_palette_witness:
  "fnv32_spec ''web'' = 1181096325 \<and> pickColor ''web'' = MAGENTA \<and> MAGENTA \<in> set colorList"
proof -
  have h: "fnv32_spec ''web'' = 1181096325"
    by (simp add: unat_fnv32 [symmetric] fnv32_Write_def offset32_def prime32_def)
  have "pickColor ''web'' = colorList ! (fnv32_spec ''web'' mod length colorList)"
    using pickColor_palette [of "''web''"] by simp
  then have "pickColor ''web'' = MAGENTA"
    by (simp add: h colorList_def)
  then show ?thesis using h by (simp add: colorList_def)
qed

section \<open>The reconnect duplicate filter\<close>

text \<open>
  Claim C10. \<open>isOldMessage\<close> returns false for every message that is empty or
  malformed (no space separator, or a timestamp prefix that does not parse),
  whatever \<open>sinceTime\<close> is, and leaves \<open>lastMessageTime\<close> as it was; so in \<open>readLoop\<close>
  such a line read without error is never discarded: it is sent to the channel,
  also when it arrives again after a reconnect.
\<close>

theorem isOldMessage_malformed:
  assumes "msg = [] \<or> malformed tp msg"
  shows "isOldMessage tp since lastT msg = (False, lastT)
     \<and> (fpc f = ReadLoop \<longrightarrow>
          forwardLogs_step tp col fol hide service (ReadString msg None now) f
            = Some (f, [\<lparr>error = None, rawLogLine.fromContainer = service,
                          rawLogLine.message = TrimSuffix_newline msg, receivedAt = now\<rparr>], []))"
proof -
  have old: "isOldMessage tp s l msg = (False, l)" for s l
    using assms malformed_parse [of tp msg]
    by (auto simp: isOldMessage_def split: sum.splits)
  then show ?thesis
    by (simp add: discards_def)
qed

theorem isOldMessage_malformed_witness:
  "malformed exampleParse ''not-a-timestamp hello''
   \<and> isOldMessage exampleParse 63713433600150000000 63713433600150000000
        ''not-a-timestamp hello'' = (False, 63713433600150000000)
   \<and> forwardLogs_step exampleParse exampleColor True True ''web''
        (ReadString ''not-a-timestamp hello'' None 7)
        \<lparr>fpc = ReadLoop, lastMessageTime = 63713433600150000000,
          sinceTime = 63713433600150000000\<rparr>
       = Some (\<lparr>fpc = ReadLoop, lastMessageTime = 63713433600150000000,
                 sinceTime = 63713433600150000000\<rparr>,
               [rawLine ''web'' ''not-a-timestamp hello'' 7], [])"
proof -
  have m: "''not-a-timestamp hello'' = [] \<or> malformed exampleParse ''not-a-timestamp hello''"
    using malformed_junk by simp
  show ?thesis
    using isOldMessage_malformed [OF m, of 63713433600150000000 63713433600150000000
        "\<lparr>fpc = ReadLoop, lastMessageTime = 63713433600150000000,
          sinceTime = 63713433600150000000\<rparr>" exampleColor True True "''web''" 7]
      malformed_junk
    by (simp add: rawLine_def TrimSuffix_newline_def)
qed

section \<open>The windowed printer\<close>

lemma insertStable_insort_key:
  "insertStable byLogTime x ys = insort_key loggedAt x ys"
  by (induction ys) (auto simp: byLogTime_def Before_def)

lemma SliceStable_sort_key: "SliceStable byLogTime xs = sort_key loggedAt xs"
proof -
  have "insertStable byLogTime = insort_key loggedAt"
    by (intro ext) (rule insertStable_insort_key)
  then show ?thesis by (simp add: SliceStable_def sort_key_def)
qed

lemma sortedLogs_sort_key: "sortedLogs tp win = sort_key loggedAt (parseWindow tp win)"
  by (simp add: sortedLogs_def SliceStable_sort_key)

lemma set_sortedLogs: "set (sortedLogs tp win) = set (parseWindow tp win)"
  by (simp add: sortedLogs_sort_key)

lemma fallback_web0:
  "fallback exampleParse web0
     = \<lparr>fromContainer = ''web'', message = ''listening'', loggedAt = 63713433600000000000,
        formatOverride = []\<rparr>"
  by (simp add: fallback_def web0_def rawLine_def parseLogLine_def SplitN2_def exampleParse_def)

lemma fallback_db50:
  "fallback exampleParse db50
     = \<lparr>fromContainer = ''db'', message = ''ready'', loggedAt = 63713433600050000000,
        formatOverride = []\<rparr>"
  by (simp add: fallback_def db50_def rawLine_def parseLogLine_def SplitN2_def exampleParse_def)

lemma fallback_junk:
  "fallback exampleParse junk
     = \<lparr>fromContainer = ''web'', message = ''not-a-timestamp hello'',
        loggedAt = 63713433600020000000, formatOverride = []\<rparr>"
  by (simp add: fallback_def junk_def rawLine_def parseLogLine_def SplitN2_def exampleParse_def)

lemma parseRaw_examples:
  "parseRaw tp web0 = [fallback tp web0]"
  "parseRaw tp db50 = [fallback tp db50]"
  "parseRaw tp junk = [fallback tp junk]"
  by (simp_all add: parseRaw_def web0_def db50_def junk_def rawLine_def)

text \<open>
  Claim C2. For every window that \<open>flush\<close> prints, the parsed lines are printed in
  non-decreasing order of \<open>loggedAt\<close>; the lines of any one timestamp are printed in
  the order they have in the window (the sort is stable); the printed lines are the
  parsed lines of the window, each once.
\<close>

theorem flush_sorted_stable:
  "sorted (map loggedAt (sortedLogs tp win))
   \<and> (\<forall>t. filter (\<lambda>l. loggedAt l = t) (sortedLogs tp win)
           = filter (\<lambda>l. loggedAt l = t) (parseWindow tp win))
   \<and> mset (sortedLogs tp win) = mset (parseWindow tp win)
   \<and> flush tp col hide win = map (printLine col hide) (sortedLogs tp win)"
  by (simp add: sortedLogs_sort_key flush_def sort_key_stable)

theorem flush_sorted_stable_witness:
  "sortedLogs exampleParse [db50, junk, web0]
     = [fallback exampleParse web0, fallback exampleParse junk, fallback exampleParse db50]
   \<and> sorted [63713433600000000000, 63713433600020000000, 63713433600050000000 :: int]
   \<and> flush exampleParse exampleColor True [db50, junk, web0]
     = [''listening'' @ [CHR 0x0A], ''not-a-timestamp hello'' @ [CHR 0x0A], ''ready'' @ [CHR 0x0A]]"
proof -
  have s: "sortedLogs exampleParse [db50, junk, web0]
     = [fallback exampleParse web0, fallback exampleParse junk, fallback exampleParse db50]"
    by (simp add: sortedLogs_def parseWindow_def parseRaw_examples SliceStable_def
        byLogTime_def Before_def fallback_web0 fallback_db50 fallback_junk)
  have "flush exampleParse exampleColor True [db50, junk, web0]
     = map (printLine exampleColor True) (sortedLogs exampleParse [db50, junk, web0])"
    using flush_sorted_stable [of exampleParse "[db50, junk, web0]" exampleColor True] by simp
  then show ?thesis
    by (simp add: s printLine_def fallback_web0 fallback_db50 fallback_junk)
qed

lemma fallback_malformed:
  "malformed tp (rawLogLine.message r) \<Longrightarrow>
   fallback tp r = \<lparr>fromContainer = rawLogLine.fromContainer r,
                    message = rawLogLine.message r,
                    loggedAt = receivedAt r, formatOverride = []\<rparr>"
  using malformed_parse [of tp "rawLogLine.message r"] by (auto simp: fallback_def)

text \<open>
  Claim C6. A raw entry is a log line when it was read without error or carries
  text; the entry with a read error and no message only marks the end of a stream
  (\<open>message\<close> is not meaningful then) and is not a line. Every malformed line of the
  window is printed, never dropped: its parsed line keeps the whole raw message,
  has \<open>receivedAt\<close> as its sort key \<open>loggedAt\<close>, is among the sorted lines, and its
  text is among the texts \<open>flush\<close> writes.
\<close>

theorem malformed_printed:
  assumes "r \<in> set win" and "malformed tp (rawLogLine.message r)"
    and "error r = None \<or> rawLogLine.message r \<noteq> []"
  shows "fallback tp r = \<lparr>fromContainer = rawLogLine.fromContainer r,
                           message = rawLogLine.message r,
                           loggedAt = receivedAt r, formatOverride = []\<rparr>
     \<and> fallback tp r \<in> set (sortedLogs tp win)
     \<and> printLine col hide (fallback tp r) \<in> set (flush tp col hide win)"
proof -
  have "parseRaw tp r = [fallback tp r]"
    using assms(3) by (auto simp: parseRaw_def)
  with assms(1) have "fallback tp r \<in> set (parseWindow tp win)"
    by (auto simp: parseWindow_def intro!: bexI [of _ r])
  then have mem: "fallback tp r \<in> set (sortedLogs tp win)"
    by (simp add: set_sortedLogs)
  then have "printLine col hide (fallback tp r) \<in> set (flush tp col hide win)"
    by (simp add: flush_def)
  with mem fallback_malformed [OF assms(2)] show ?thesis by simp
qed

theorem malformed_printed_witness:
  "junk \<in> set [db50, junk, web0]
   \<and> malformed exampleParse (rawLogLine.message junk)
   \<and> error junk = None
   \<and> loggedAt (fallback exampleParse junk) = receivedAt junk
   \<and> fallback exampleParse junk \<in> set (sortedLogs exampleParse [db50, junk, web0])
   \<and> ''not-a-timestamp hello'' @ [CHR 0x0A]
        \<in> set (flush exampleParse exampleColor True [db50, junk, web0])"
proof -
  have a: "junk \<in> set [db50, junk, web0]" by simp
  have b: "malformed exampleParse (rawLogLine.message junk)"
    using malformed_junk by (simp add: junk_def rawLine_def)
  have c: "error junk = None \<or> rawLogLine.message junk \<noteq> []"
    by (simp add: junk_def rawLine_def)
  have c': "error junk = None"
    by (simp add: junk_def rawLine_def)
  have d: "printLine exampleColor True (fallback exampleParse junk)
             = ''not-a-timestamp hello'' @ [CHR 0x0A]"
    by (simp add: printLine_def fallback_junk)
  have e: "loggedAt (fallback exampleParse junk) = receivedAt junk"
    by (simp add: fallback_junk) (simp add: junk_def rawLine_def)
  have "fallback exampleParse junk \<in> set (sortedLogs exampleParse [db50, junk, web0])
      \<and> printLine exampleColor True (fallback exampleParse junk)
          \<in> set (flush exampleParse exampleColor True [db50, junk, web0])"
    using malformed_printed [OF a b c, of exampleColor True] by blast
  then show ?thesis
    using b c' e by (simp add: d)
qed

lemma printLogs_run_append:
  "printLogs_run tp col hide (xs @ ys) p =
     (case printLogs_run tp col hide xs p of
        None \<Rightarrow> None
      | Some p' \<Rightarrow> printLogs_run tp col hide ys p')"
  by (induction xs arbitrary: p) (auto split: option.splits)

lemma drain_recvs:
  "mode p = Draining \<Longrightarrow>
   printLogs_run tp col hide (map Recv q) p = Some (p\<lparr>window := window p @ q\<rparr>)"
proof (induction q arbitrary: p)
  case Nil
  then show ?case by simp
next
  case (Cons l q)
  have "printLogs_step tp col hide (Recv l) p = Some (p\<lparr>window := window p @ [l]\<rparr>)"
    using Cons.prems by simp
  moreover have "mode (p\<lparr>window := window p @ [l]\<rparr>) = Draining"
    using Cons.prems by simp
  ultimately show ?case
    using Cons.IH [of "p\<lparr>window := window p @ [l]\<rparr>"] by simp
qed

lemma drain_chan:
  "mode (prt s) = Draining \<Longrightarrow> chan s = c \<Longrightarrow>
   run tp col cmd (replicate (Suc (length c)) (P SRecv)) s
     = Some (s\<lparr>prt := returnNil tp col (hideServiceName cmd)
                         ((prt s)\<lparr>window := window (prt s) @ c\<rparr>),
               chan := []\<rparr>)"
proof (induction c arbitrary: s)
  case Nil
  then show ?case
    by (cases "closed s") (simp_all add: step_def printer_step_def printer_event_def)
next
  case (Cons l rest)
  let ?u = "s\<lparr>prt := (prt s)\<lparr>window := window (prt s) @ [l]\<rparr>, chan := rest\<rparr>"
  have st: "step tp col cmd (P SRecv) s = Some ?u"
    using Cons.prems by (simp add: step_def printer_step_def printer_event_def)
  have m: "mode (prt ?u) = Draining" and c: "chan ?u = rest"
    using Cons.prems by simp_all
  from Cons.IH [OF m c] st show ?case
    by simp
qed

lemma cancelled_drain:
  assumes "mode (prt s) = Selecting" and "cancelled s"
  shows "run tp col cmd (P SDone # replicate (Suc (length (chan s))) (P SRecv)) s
     = Some (s\<lparr>prt := (prt s)\<lparr>stdout := stdout (prt s)
                             @ flush tp col (hideServiceName cmd) (window (prt s) @ chan s),
                           window := [], mode := Returned\<rparr>,
               chan := []\<rparr>)"
proof -
  let ?u = "s\<lparr>prt := (prt s)\<lparr>mode := Draining\<rparr>\<rparr>"
  have st: "step tp col cmd (P SDone) s = Some ?u"
    using assms by (simp add: step_def printer_step_def printer_event_def)
  have m: "mode (prt ?u) = Draining" and c: "chan ?u = chan s" by simp_all
  from drain_chan [OF m c, of tp col cmd] st show ?thesis
    by (simp add: returnNil_def del: replicate_Suc)
qed

text \<open>
  Claim C7. When \<open>printLogs\<close>, waiting in its \<open>select\<close>, takes the cancellation of the
  context, it receives the lines \<open>q\<close> that are queued on the channel and, as soon as
  a receive finds nothing queued (the \<open>default\<close> case), returns \<open>nil\<close> after flushing
  the window with those lines; in the drain loop the case for an empty channel can
  always be taken, so it never waits for a new line. In \<open>Run\<close>: once the context is
  cancelled, \<open>printLogs\<close> alone, in one step more than there are entries queued on
  the channel, receives exactly those entries in their order, flushes the window
  extended by them, leaves the channel empty and returns; in the drain loop a
  receive takes the head of a non-empty channel, and neither the timer nor
  \<open>ctx.Done()\<close> is waited for.
\<close>

theorem cancel_drains:
  assumes "mode p = Selecting"
  shows "printLogs_run tp col hide (CtxDone # map Recv q @ [Default]) p
           = Some (p\<lparr>stdout := stdout p @ flush tp col hide (window p @ q), window := [],
                     mode := Returned\<rparr>)
     \<and> (\<forall>d. mode d = Draining \<longrightarrow>
            printLogs_step tp col hide Default d = Some (returnNil tp col hide d))
     \<and> (\<forall>s. mode (prt s) = Draining \<and> chan s = [] \<and> \<not> closed s \<longrightarrow>
            printer_step tp col cmd SRecv s
              = Some (s\<lparr>prt := returnNil tp col (hideServiceName cmd) (prt s)\<rparr>))
     \<and> (\<forall>s. mode (prt s) = Selecting \<and> cancelled s \<longrightarrow>
            run tp col cmd (P SDone # replicate (Suc (length (chan s))) (P SRecv)) s
              = Some (s\<lparr>prt := (prt s)\<lparr>stdout := stdout (prt s)
                                     @ flush tp col (hideServiceName cmd)
                                         (window (prt s) @ chan s),
                                   window := [], mode := Returned\<rparr>,
                        chan := []\<rparr>))
     \<and> (\<forall>s. mode (prt s) = Draining \<longrightarrow>
            run tp col cmd (replicate (Suc (length (chan s))) (P SRecv)) s
              = Some (s\<lparr>prt := returnNil tp col (hideServiceName cmd)
                                  ((prt s)\<lparr>window := window (prt s) @ chan s\<rparr>),
                        chan := []\<rparr>))
     \<and> (\<forall>s l rest. mode (prt s) = Draining \<and> chan s = l # rest \<longrightarrow>
            step tp col cmd (P SRecv) s
              = Some (s\<lparr>prt := (prt s)\<lparr>window := window (prt s) @ [l]\<rparr>, chan := rest\<rparr>))
     \<and> (\<forall>s. mode (prt s) = Draining \<longrightarrow>
            step tp col cmd (P STimer) s = None \<and> step tp col cmd (P SDone) s = None)"
proof -
  have 1: "printLogs_step tp col hide CtxDone p = Some (p\<lparr>mode := Draining\<rparr>)"
    using assms by simp
  have 2: "printLogs_run tp col hide (map Recv q) (p\<lparr>mode := Draining\<rparr>)
        = Some (p\<lparr>mode := Draining, window := window p @ q\<rparr>)"
    using drain_recvs [of "p\<lparr>mode := Draining\<rparr>" tp col hide q] by simp
  have 3: "printLogs_step tp col hide Default (p\<lparr>mode := Draining, window := window p @ q\<rparr>)
        = Some (p\<lparr>stdout := stdout p @ flush tp col hide (window p @ q), window := [],
                   mode := Returned\<rparr>)"
    by (simp add: returnNil_def)
  have 4: "printLogs_run tp col hide (CtxDone # map Recv q @ [Default]) p
           = Some (p\<lparr>stdout := stdout p @ flush tp col hide (window p @ q), window := [],
                     mode := Returned\<rparr>)"
    by (simp add: 1 printLogs_run_append 2 3 del: printLogs_step.simps)
  have 5: "printer_step tp col cmd SRecv s
              = Some (s\<lparr>prt := returnNil tp col (hideServiceName cmd) (prt s)\<rparr>)"
    if "mode (prt s) = Draining" "chan s = []" "\<not> closed s" for s
    using that by (simp add: printer_step_def printer_event_def)
  have 6: "printLogs_step tp col hide Default d = Some (returnNil tp col hide d)"
    if "mode d = Draining" for d
    using that by simp
  have 7: "run tp col cmd (P SDone # replicate (Suc (length (chan s))) (P SRecv)) s
              = Some (s\<lparr>prt := (prt s)\<lparr>stdout := stdout (prt s)
                                     @ flush tp col (hideServiceName cmd)
                                         (window (prt s) @ chan s),
                                   window := [], mode := Returned\<rparr>,
                        chan := []\<rparr>)"
    if "mode (prt s) = Selecting" "cancelled s" for s
    using cancelled_drain [OF that] .
  have 8: "run tp col cmd (replicate (Suc (length (chan s))) (P SRecv)) s
              = Some (s\<lparr>prt := returnNil tp col (hideServiceName cmd)
                                  ((prt s)\<lparr>window := window (prt s) @ chan s\<rparr>),
                        chan := []\<rparr>)"
    if "mode (prt s) = Draining" for s
    using drain_chan [OF that refl] .
  have 9: "step tp col cmd (P SRecv) s
              = Some (s\<lparr>prt := (prt s)\<lparr>window := window (prt s) @ [l]\<rparr>, chan := rest\<rparr>)"
    if "mode (prt s) = Draining" "chan s = l # rest" for s l rest
    using that by (simp add: step_def printer_step_def printer_event_def)
  have 10: "step tp col cmd (P STimer) s = None \<and> step tp col cmd (P SDone) s = None"
    if "mode (prt s) = Draining" for s
    using that by (simp add: step_def printer_step_def printer_event_def)
  show ?thesis using 4 5 6 7 8 9 10 by blast
qed

theorem cancel_drains_witness:
  "mode (printer0\<lparr>window := [db50]\<rparr>) = Selecting
   \<and> printLogs_run exampleParse exampleColor True (CtxDone # map Recv [web0] @ [Default])
        (printer0\<lparr>window := [db50]\<rparr>)
     = Some \<lparr>window = [], flushTrigger = False,
             stdout = [''listening'' @ [CHR 0x0A], ''ready'' @ [CHR 0x0A]], mode = Returned\<rparr>
   \<and> run exampleParse exampleColor \<lparr>Services = [''web''], Follow = False\<rparr>
        [P SDone, P SRecv, P SRecv]
        \<lparr>readers = [Forwarding forwarder0], runningCount = 1, mutex = None, watcher = WLock,
         cancelled = True, chan = [web0], closed = False,
         prt = printer0\<lparr>window := [db50]\<rparr>, stderr = []\<rparr>
     = Some \<lparr>readers = [Forwarding forwarder0], runningCount = 1, mutex = None,
             watcher = WLock, cancelled = True, chan = [], closed = False,
             prt = \<lparr>window = [], flushTrigger = False,
                    stdout = [''listening'' @ [CHR 0x0A], ''ready'' @ [CHR 0x0A]],
                    mode = Returned\<rparr>,
             stderr = []\<rparr>"
proof -
  let ?cmd = "\<lparr>Services = [''web''], Follow = False\<rparr>"
  let ?s = "\<lparr>readers = [Forwarding forwarder0], runningCount = 1, mutex = None,
         watcher = WLock, cancelled = True, chan = [web0], closed = False,
         prt = printer0\<lparr>window := [db50]\<rparr>, stderr = []\<rparr>"
  have m: "mode (printer0\<lparr>window := [db50]\<rparr>) = Selecting"
    by (simp add: printer0_def)
  have f: "flush exampleParse exampleColor True [db50, web0]
             = [''listening'' @ [CHR 0x0A], ''ready'' @ [CHR 0x0A]]"
    by (simp add: flush_def sortedLogs_def parseWindow_def parseRaw_examples SliceStable_def
        byLogTime_def Before_def fallback_web0 fallback_db50 printLine_def)
  note w = cancel_drains [OF m, of exampleParse exampleColor True "[web0]" ?cmd]
  from w have a: "printLogs_run exampleParse exampleColor True
        (CtxDone # map Recv [web0] @ [Default]) (printer0\<lparr>window := [db50]\<rparr>)
     = Some \<lparr>window = [], flushTrigger = False,
             stdout = [''listening'' @ [CHR 0x0A], ''ready'' @ [CHR 0x0A]], mode = Returned\<rparr>"
    using f by (simp add: printer0_def)
  have pre: "mode (prt ?s) = Selecting \<and> cancelled ?s"
    by (simp add: printer0_def)
  from w pre have "run exampleParse exampleColor ?cmd
        (P SDone # replicate (Suc (length (chan ?s))) (P SRecv)) ?s
      = Some (?s\<lparr>prt := (prt ?s)\<lparr>stdout := stdout (prt ?s)
                               @ flush exampleParse exampleColor (hideServiceName ?cmd)
                                   (window (prt ?s) @ chan ?s),
                             window := [], mode := Returned\<rparr>,
                 chan := []\<rparr>)"
    by blast
  then have b: "run exampleParse exampleColor ?cmd [P SDone, P SRecv, P SRecv] ?s
     = Some \<lparr>readers = [Forwarding forwarder0], runningCount = 1, mutex = None,
             watcher = WLock, cancelled = True, chan = [], closed = False,
             prt = \<lparr>window = [], flushTrigger = False,
                    stdout = [''listening'' @ [CHR 0x0A], ''ready'' @ [CHR 0x0A]],
                    mode = Returned\<rparr>,
             stderr = []\<rparr>"
    using f by (simp add: printer0_def hideServiceName_def del: run.simps)
  from m a b show ?thesis by blast
qed

section \<open>The source reader\<close>

lemma parse_web0:
  "parseLogLine exampleParse ''2020-01-01T00:00:00Z listening''
     = Inr (''listening'', 63713433600000000000)"
  by (simp add: parseLogLine_def SplitN2_def exampleParse_def)

text \<open>
  Claim C3, as stated, fails for a line that \<open>ReadString\<close> returns together with a
  read error: \<open>readLoop\<close> asks the duplicate filter only when \<open>err == nil\<close>, so such
  a line is sent to the channel although its timestamp is not after \<open>sinceTime\<close>.
\<close>

theorem old_line_with_error_forwarded:
  "parseLogLine exampleParse ''2020-01-01T00:00:00Z listening''
     = Inr (''listening'', 63713433600000000000)
   \<and> (63713433600000000000 :: int) \<le> 63713433600050000000
   \<and> forwardLogs_step exampleParse exampleColor True True ''web''
        (ReadString ''2020-01-01T00:00:00Z listening'' (Some EOF) 63713433600200000000)
        \<lparr>fpc = ReadLoop, lastMessageTime = 63713433600050000000,
          sinceTime = 63713433600050000000\<rparr>
     = Some (\<lparr>fpc = ReadFailed EOF, lastMessageTime = 63713433600050000000,
               sinceTime = 63713433600050000000\<rparr>,
             [\<lparr>error = Some EOF, rawLogLine.fromContainer = ''web'',
               rawLogLine.message = ''2020-01-01T00:00:00Z listening'',
               receivedAt = 63713433600200000000\<rparr>], [])"
  by (simp add: parse_web0 discards_def TrimSuffix_newline_def)

text \<open>
  Claim C3, amended. In \<open>readLoop\<close> with \<open>sinceTime = t\<close>, a line whose timestamp
  parses: if it was read without error and its timestamp is at most \<open>t\<close>, it is
  dropped (nothing is sent, the state is unchanged); if its timestamp is after \<open>t\<close>,
  or it was returned together with a read error, it is sent to the channel, also
  when the provider delivers it again after the reconnect.
\<close>

theorem reconnect_filter:
  assumes "fpc f = ReadLoop" and "parseLogLine tp msg = Inr (m, ts)"
  shows "(err = None \<and> ts \<le> sinceTime f \<longrightarrow>
            forwardLogs_step tp col fol hide service (ReadString msg err now) f
              = Some (f, [], []))
     \<and> (sinceTime f < ts \<or> err \<noteq> None \<longrightarrow>
            (\<exists>f'. forwardLogs_step tp col fol hide service (ReadString msg err now) f
                    = Some (f', [\<lparr>error = err, rawLogLine.fromContainer = service,
                                  rawLogLine.message = TrimSuffix_newline msg,
                                  receivedAt = now\<rparr>], [])))"
proof -
  have ne: "msg \<noteq> []"
    using assms(2) by (auto simp: parseLogLine_def SplitN2_def)
  have old: "ts \<le> sinceTime f \<Longrightarrow>
      isOldMessage tp (sinceTime f) (lastMessageTime f) msg = (True, lastMessageTime f)"
    using assms(2) ne by (simp add: isOldMessage_def After_def)
  have new: "sinceTime f < ts \<Longrightarrow>
      fst (isOldMessage tp (sinceTime f) (lastMessageTime f) msg) = False"
    using assms(2) ne by (simp add: isOldMessage_def After_def)
  have drop: "forwardLogs_step tp col fol hide service (ReadString msg err now) f
              = Some (f, [], [])" if "err = None" "ts \<le> sinceTime f"
    using that assms(1) old by (simp add: discards_def)
  have fwd: "\<exists>f'. forwardLogs_step tp col fol hide service (ReadString msg err now) f
                    = Some (f', [\<lparr>error = err, rawLogLine.fromContainer = service,
                                  rawLogLine.message = TrimSuffix_newline msg,
                                  receivedAt = now\<rparr>], [])"
    if "sinceTime f < ts \<or> err \<noteq> None"
  proof (cases err)
    case None
    with that have "sinceTime f < ts" by simp
    from new [OF this] obtain l where
      "isOldMessage tp (sinceTime f) (lastMessageTime f) msg = (False, l)"
      by (cases "isOldMessage tp (sinceTime f) (lastMessageTime f) msg") auto
    with None assms(1) show ?thesis by (simp add: discards_def)
  next
    case (Some e)
    with assms(1) show ?thesis by (cases fol) (simp_all add: discards_def Let_def)
  qed
  show ?thesis using drop fwd by blast
qed

theorem reconnect_filter_witness:
  "forwardLogs_step exampleParse exampleColor True True ''web''
      (ReadString ''2020-01-01T00:00:00Z listening'' None 63713433600200000000)
      \<lparr>fpc = ReadLoop, lastMessageTime = 63713433600050000000,
        sinceTime = 63713433600050000000\<rparr>
     = Some (\<lparr>fpc = ReadLoop, lastMessageTime = 63713433600050000000,
               sinceTime = 63713433600050000000\<rparr>, [], [])"
proof -
  have a: "fpc \<lparr>fpc = ReadLoop, lastMessageTime = 63713433600050000000,
        sinceTime = 63713433600050000000\<rparr> = ReadLoop" by simp
  show ?thesis
    using reconnect_filter [OF a parse_web0, of None exampleColor True True "''web''"
        63713433600200000000]
    by simp
qed

lemma returned_run:
  "fpc f = Return err \<Longrightarrow>
   forwardLogs_run tp col fol hide service evs f = Some (f', sent, errs) \<Longrightarrow>
   evs = [] \<and> f' = f \<and> sent = [] \<and> errs = []"
  by (cases evs) auto

lemma not_following_run:
  assumes "forwardLogs_run tp col False hide service evs f = Some (f', sent, errs)"
    and "fpc f = Connect \<or> fpc f = ReadLoop"
  shows "((fpc f' = Connect \<or> fpc f' = ReadLoop
           \<or> (\<exists>e. fpc f' = Return (WithContext ''start logs stream'' e)))
          \<and> list_all (\<lambda>l. error l = None) sent)
     \<or> (\<exists>e. fpc f' = Return (WithContext ''recv log stream'' e) \<and> sent \<noteq> []
            \<and> error (last sent) = Some e \<and> list_all (\<lambda>l. error l = None) (butlast sent))"
  using assms
proof (induction evs arbitrary: f sent errs)
  case Nil
  then show ?case by auto
next
  case (Cons ev evs)
  from Cons.prems(1) obtain g s1 e1 s2 e2 where
    st: "forwardLogs_step tp col False hide service ev f = Some (g, s1, e1)"
    and rn: "forwardLogs_run tp col False hide service evs g = Some (f', s2, e2)"
    and sent: "sent = s1 @ s2"
    by (auto split: option.splits prod.splits)
  from Cons.prems(2) show ?case
  proof
    assume c: "fpc f = Connect"
    show ?thesis
    proof (cases ev)
      case (StreamErr e)
      with c st have g: "fpc g = Return (WithContext ''start logs stream'' e)" and "s1 = []"
        by auto
      with returned_run [OF g rn] sent show ?thesis by auto
    next
      case StreamOk
      with c st have "fpc g = ReadLoop" and "s1 = []" by auto
      with Cons.IH [OF rn] sent show ?thesis by auto
    qed (use c st in auto)
  next
    assume c: "fpc f = ReadLoop"
    show ?thesis
    proof (cases ev)
      case (ReadString msg err now)
      show ?thesis
      proof (cases err)
        case None
        with c st ReadString have "fpc g = ReadLoop" and "list_all (\<lambda>l. error l = None) s1"
          by (auto simp: Let_def split: prod.splits if_splits)
        with Cons.IH [OF rn] sent show ?thesis
          by (auto simp: butlast_append)
      next
        case (Some e)
        with c st ReadString have g: "fpc g = Return (WithContext ''recv log stream'' e)"
          and s1: "s1 \<noteq> []" "error (last s1) = Some e" "butlast s1 = []"
          by (auto simp: Let_def discards_def)
        from returned_run [OF g rn] have "s2 = []" and "f' = g" by simp_all
        with g s1 sent show ?thesis by auto
      qed
    qed (use c st in auto)
  qed
qed

lemma not_following_one_error:
  assumes "forwardLogs_run tp col False hide service evs forwarder0 = Some (f', sent, errs)"
  shows "length (filter (\<lambda>l. error l \<noteq> None) sent) \<le> 1"
proof -
  have c: "fpc forwarder0 = Connect \<or> fpc forwarder0 = ReadLoop"
    by (simp add: forwarder0_def)
  have z: "filter (\<lambda>l. error l \<noteq> None) xs = []" if "list_all (\<lambda>l. error l = None) xs"
    for xs :: "rawLogLine list"
    using that by (simp add: filter_empty_conv list_all_iff)
  from not_following_run [OF assms c]
  consider "list_all (\<lambda>l. error l = None) sent"
    | "sent \<noteq> []" and "list_all (\<lambda>l. error l = None) (butlast sent)"
    by blast
  then show ?thesis
  proof cases
    case 1
    from z [OF this] show ?thesis by simp
  next
    case 2
    from 2(1) have "sent = butlast sent @ [last sent]" by simp
    then have "filter (\<lambda>l. error l \<noteq> None) sent
        = filter (\<lambda>l. error l \<noteq> None) (butlast sent) @ filter (\<lambda>l. error l \<noteq> None) [last sent]"
      by (metis filter_append)
    with z [OF 2(2)] show ?thesis by simp
  qed
qed

text \<open>
  Claim C5. When \<open>ReadString\<close> returns an error (end of stream included) and the
  command is not following, \<open>forwardLogs\<close> sends exactly one raw line carrying that
  error and returns; after the return it reacts to nothing more. In a whole run of
  \<open>forwardLogs\<close> at most one line sent carries an error, and after a return from
  \<open>readLoop\<close> it is the last line sent. The goroutine then takes the lock,
  decrements \<open>runningCount\<close>, releases the lock and exits, and an exited goroutine
  never moves again.
\<close>

theorem final_line_not_following:
  assumes "\<not> Follow cmd" and "fpc f = ReadLoop"
    and "i < length (readers s)" and "i < length (Services cmd)"
    and "readers s ! i = Forwarding f"
    and "length (chan s) < capacity cmd" and "mutex s = None"
  shows "forwardLogs_step tp col (Follow cmd) hide service (ReadString msg (Some e) now) f
           = Some (f\<lparr>fpc := Return (WithContext ''recv log stream'' e)\<rparr>,
                   [\<lparr>error = Some e, rawLogLine.fromContainer = service,
                     rawLogLine.message = TrimSuffix_newline msg, receivedAt = now\<rparr>], [])
     \<and> (\<forall>ev err. forwardLogs_step tp col (Follow cmd) hide service ev (f\<lparr>fpc := Return err\<rparr>)
            = None)
     \<and> (\<forall>evs f' sent errs.
            forwardLogs_run tp col (Follow cmd) hide service evs forwarder0 = Some (f', sent, errs)
            \<longrightarrow> length (filter (\<lambda>l. error l \<noteq> None) sent) \<le> 1
                \<and> (\<forall>e'. fpc f' = Return (WithContext ''recv log stream'' e')
                       \<longrightarrow> sent \<noteq> [] \<and> error (last sent) = Some e'))
     \<and> run tp col cmd
          [R i (Fwd (ReadString msg (Some e) now)), R i Lock, R i Access, R i Unlock] s
         = Some (s\<lparr>readers := (readers s)[i := Exited],
                   chan := chan s @ [\<lparr>error = Some e, rawLogLine.fromContainer = Services cmd ! i,
                                      rawLogLine.message = TrimSuffix_newline msg,
                                      receivedAt = now\<rparr>],
                   mutex := None,
                   runningCount := runningCount s - 1,
                   watcher := (if runningCount s - 1 = 0 then Signal (watcher s) else watcher s)\<rparr>)
     \<and> (\<forall>a u. i < length (readers u) \<and> readers u ! i = Exited \<longrightarrow>
            reader_step tp col cmd i a u = None)"
proof -
  have 1: "forwardLogs_step tp col (Follow cmd) h sv (ReadString msg (Some e) now) f
           = Some (f\<lparr>fpc := Return (WithContext ''recv log stream'' e)\<rparr>,
                   [\<lparr>error = Some e, rawLogLine.fromContainer = sv,
                     rawLogLine.message = TrimSuffix_newline msg, receivedAt = now\<rparr>], [])"
    for h sv
    using assms(1,2) by (simp add: discards_def)
  have 2: "forwardLogs_step tp col (Follow cmd) hide service ev (f\<lparr>fpc := Return err\<rparr>) = None"
    for ev err
    by simp
  have 3: "length (filter (\<lambda>l. error l \<noteq> None) sent) \<le> 1
        \<and> (\<forall>e'. fpc f' = Return (WithContext ''recv log stream'' e')
               \<longrightarrow> sent \<noteq> [] \<and> error (last sent) = Some e')"
    if r: "forwardLogs_run tp col (Follow cmd) hide service evs forwarder0 = Some (f', sent, errs)"
    for evs f' sent errs
  proof -
    from r assms(1)
    have r': "forwardLogs_run tp col False hide service evs forwarder0 = Some (f', sent, errs)"
      by simp
    have c: "fpc forwarder0 = Connect \<or> fpc forwarder0 = ReadLoop"
      by (simp add: forwarder0_def)
    from not_following_run [OF r' c] not_following_one_error [OF r'] show ?thesis
      by auto
  qed
  let ?line = "\<lparr>error = Some e, rawLogLine.fromContainer = Services cmd ! i,
                 rawLogLine.message = TrimSuffix_newline msg, receivedAt = now\<rparr>"
  let ?err = "WithContext ''recv log stream'' e"
  let ?s1 = "s\<lparr>readers := (readers s)[i := LockDec ?err], chan := chan s @ [?line],
               stderr := stderr s @ []\<rparr>"
  have a: "step tp col cmd (R i (Fwd (ReadString msg (Some e) now))) s = Some ?s1"
    using assms(3-6) 1 [of "hideServiceName cmd" "Services cmd ! i"]
    by (simp add: step_def reader_step_def del: forwardLogs_step.simps)
  let ?s2 = "?s1\<lparr>readers := (readers ?s1)[i := Dec ?err], mutex := Some (Reader i)\<rparr>"
  have b: "step tp col cmd (R i Lock) ?s1 = Some ?s2"
    using assms(3,4,7) by (simp add: step_def reader_step_def)
  let ?s3 = "?s2\<lparr>readers := (readers ?s2)[i := UnlockDec ?err],
                  runningCount := runningCount ?s2 - 1,
                  watcher := (if runningCount ?s2 - 1 = 0 then Signal (watcher ?s2)
                              else watcher ?s2)\<rparr>"
  have c: "step tp col cmd (R i Access) ?s2 = Some ?s3"
    using assms(3,4) by (simp add: step_def reader_step_def)
  let ?s4 = "?s3\<lparr>readers := (readers ?s3)[i := Exited], mutex := None\<rparr>"
  have d: "step tp col cmd (R i Unlock) ?s3 = Some ?s4"
    using assms(1,3,4) by (simp add: step_def reader_step_def)
  have r: "run tp col cmd
          [R i (Fwd (ReadString msg (Some e) now)), R i Lock, R i Access, R i Unlock] s
         = Some ?s4"
    by (simp only: run.simps a b c d option.case)
  have 4: "reader_step tp col cmd i a u = None"
    if "i < length (readers u)" "readers u ! i = Exited" for a u
    using that by (simp add: reader_step_def)
  have eq: "?s4 = s\<lparr>readers := (readers s)[i := Exited],
                   chan := chan s @ [?line],
                   mutex := None,
                   runningCount := runningCount s - 1,
                   watcher := (if runningCount s - 1 = 0 then Signal (watcher s) else watcher s)\<rparr>"
    by simp
  show ?thesis
    using 1 [of hide service] 2 3 r 4 unfolding eq by blast
qed

theorem final_line_not_following_witness:
  "run exampleParse exampleColor \<lparr>Services = [''web''], Follow = False\<rparr>
     [R 0 (Fwd (ReadString [] (Some EOF) 63713433600200000000)), R 0 Lock, R 0 Access, R 0 Unlock]
     ((init \<lparr>Services = [''web''], Follow = False\<rparr>)
        \<lparr>readers := [Forwarding (forwarder0\<lparr>fpc := ReadLoop\<rparr>)]\<rparr>)
   = Some \<lparr>readers = [Exited], runningCount = 0, mutex = None, watcher = WLock,
           cancelled = False,
           chan = [\<lparr>error = Some EOF, rawLogLine.fromContainer = ''web'',
                    rawLogLine.message = [], receivedAt = 63713433600200000000\<rparr>],
           closed = False, prt = printer0, stderr = []\<rparr>"
proof -
  let ?cmd = "\<lparr>Services = [''web''], Follow = False\<rparr>"
  let ?s = "(init ?cmd)\<lparr>readers := [Forwarding (forwarder0\<lparr>fpc := ReadLoop\<rparr>)]\<rparr>"
  have h: "\<not> Follow ?cmd" "fpc (forwarder0\<lparr>fpc := ReadLoop\<rparr>) = ReadLoop"
    "0 < length (readers ?s)" "0 < length (Services ?cmd)"
    "readers ?s ! 0 = Forwarding (forwarder0\<lparr>fpc := ReadLoop\<rparr>)"
    "length (chan ?s) < capacity ?cmd" "mutex ?s = None"
    by (simp_all add: init_def capacity_def)
  show ?thesis
    using final_line_not_following [OF h, of exampleParse exampleColor True "''web''" "[]" EOF
        63713433600200000000]
    by (simp add: init_def Signal_def TrimSuffix_newline_def)
qed

lemma formatOverride_fallback: "formatOverride (fallback tp r) = []"
  by (simp add: fallback_def split: sum.splits prod.splits)

lemma formatOverride_parseWindow:
  "l \<in> set (parseWindow tp win) \<Longrightarrow> formatOverride l = []"
  by (auto simp: parseWindow_def parseRaw_def formatOverride_fallback split: if_splits)

text \<open>
  Claim C8, as stated, fails: a status message does not pass through
  \<open>formatOverride\<close>. Following one service whose stream gives a line and then ends,
  with the container exited, \<open>forwardLogs\<close> writes the message to standard error; the
  lines it sent are printed by \<open>flush\<close> without it, and their \<open>formatOverride\<close> is
  empty.
\<close>

theorem status_message_on_stderr:
  "forwardLogs_run exampleParse exampleColor True True ''web''
      [StreamOk,
       ReadString (''2020-01-01T00:00:00Z listening'' @ [CHR 0x0A]) None 63713433600200000000,
       ReadString [] (Some EOF) 63713433600200000000,
       SelExited]
      forwarder0
     = Some (\<lparr>fpc = Return (WithContext ''recv log stream'' EOF),
               lastMessageTime = 63713433600000000000, sinceTime = 0\<rparr>,
             [web0,
              \<lparr>error = Some EOF, rawLogLine.fromContainer = ''web'', rawLogLine.message = [],
               receivedAt = 63713433600200000000\<rparr>],
             [''The container exited.'' @ [CHR 0x0A]])
   \<and> map formatOverride (sortedLogs exampleParse
         [web0,
          \<lparr>error = Some EOF, rawLogLine.fromContainer = ''web'', rawLogLine.message = [],
           receivedAt = 63713433600200000000\<rparr>]) = [[]]
   \<and> flush exampleParse exampleColor True
         [web0,
          \<lparr>error = Some EOF, rawLogLine.fromContainer = ''web'', rawLogLine.message = [],
           receivedAt = 63713433600200000000\<rparr>] = [''listening'' @ [CHR 0x0A]]"
proof -
  have r: "forwardLogs_run exampleParse exampleColor True True ''web''
      [StreamOk,
       ReadString (''2020-01-01T00:00:00Z listening'' @ [CHR 0x0A]) None 63713433600200000000,
       ReadString [] (Some EOF) 63713433600200000000,
       SelExited]
      forwarder0
     = Some (\<lparr>fpc = Return (WithContext ''recv log stream'' EOF),
               lastMessageTime = 63713433600000000000, sinceTime = 0\<rparr>,
             [web0,
              \<lparr>error = Some EOF, rawLogLine.fromContainer = ''web'', rawLogLine.message = [],
               receivedAt = 63713433600200000000\<rparr>],
             [''The container exited.'' @ [CHR 0x0A]])"
    by code_simp
  have s: "sortedLogs exampleParse
         [web0,
          \<lparr>error = Some EOF, rawLogLine.fromContainer = ''web'', rawLogLine.message = [],
           receivedAt = 63713433600200000000\<rparr>] = [fallback exampleParse web0]"
    by (simp add: sortedLogs_def parseWindow_def parseRaw_examples SliceStable_def)
       (simp add: parseRaw_def)
  have m: "map formatOverride (sortedLogs exampleParse
         [web0,
          \<lparr>error = Some EOF, rawLogLine.fromContainer = ''web'', rawLogLine.message = [],
           receivedAt = 63713433600200000000\<rparr>]) = [[]]"
    by (simp add: s fallback_web0)
  have t: "flush exampleParse exampleColor True
         [web0,
          \<lparr>error = Some EOF, rawLogLine.fromContainer = ''web'', rawLogLine.message = [],
           receivedAt = 63713433600200000000\<rparr>] = [''listening'' @ [CHR 0x0A]]"
    by (simp add: s flush_def printLine_def fallback_web0)
  show ?thesis
    using r m t by blast
qed

text \<open>
  Claim C8, amended. The status messages (\<open>The container exited.\<close> and
  \<open>Disconnected from logs, reconnecting..\<close>) are written by \<open>printStatusMessage\<close> to
  standard error, after the colored service name and a dash unless only one
  service is configured; they are not raw lines and do not pass through
  \<open>formatOverride\<close>: every line that \<open>flush\<close> parses has an empty \<open>formatOverride\<close>.
  When \<open>formatOverride\<close> is present the printer writes that literal string,
  whatever the color function and the source prefix would give.
\<close>

theorem status_messages:
  assumes "fpc f = ReadFailed e"
  shows "forwardLogs_step tp col fol hide service SelExited f
           = Some (f\<lparr>fpc := Return (WithContext ''recv log stream'' e)\<rparr>, [],
                   [printStatusMessage col service ''The container exited.'' hide])
     \<and> forwardLogs_step tp col fol hide service SelTimer f
           = Some (f\<lparr>fpc := Connect\<rparr>, [],
                   [printStatusMessage col service ''Disconnected from logs, reconnecting..'' hide])
     \<and> printStatusMessage col service msg True = msg @ [CHR 0x0A]
     \<and> printStatusMessage col service msg False
           = col service (pickColor service) @ '' - '' @ msg @ [CHR 0x0A]
     \<and> (\<forall>l \<in> set (sortedLogs tp win). formatOverride l = [])
     \<and> (formatOverride lg \<noteq> [] \<longrightarrow> printLine col hide lg = formatOverride lg)"
  using assms
  by (simp add: printStatusMessage_def set_sortedLogs formatOverride_parseWindow printLine_def)

theorem status_messages_witness:
  "forwardLogs_step exampleParse exampleColor True False ''web'' SelExited
      \<lparr>fpc = ReadFailed EOF, lastMessageTime = 0, sinceTime = 0\<rparr>
     = Some (\<lparr>fpc = Return (WithContext ''recv log stream'' EOF), lastMessageTime = 0,
               sinceTime = 0\<rparr>, [], [''web - The container exited.'' @ [CHR 0x0A]])
   \<and> formatOverride (fallback exampleParse web0) = []
   \<and> printLine exampleColor False
        \<lparr>fromContainer = ''web'', message = ''listening'', loggedAt = 0,
         formatOverride = ''status''\<rparr> = ''status''"
proof -
  have a: "fpc \<lparr>fpc = ReadFailed EOF, lastMessageTime = 0, sinceTime = 0\<rparr> = ReadFailed EOF"
    by simp
  have b: "fallback exampleParse web0 \<in> set (sortedLogs exampleParse [web0])"
    by (simp add: sortedLogs_def parseWindow_def parseRaw_examples SliceStable_def)
  note w = status_messages [OF a, of exampleParse exampleColor True False "''web''"
      "''The container exited.''" "[web0]"
      "\<lparr>fromContainer = ''web'', message = ''listening'', loggedAt = 0,
         formatOverride = ''status''\<rparr>"]
  from w have 1: "forwardLogs_step exampleParse exampleColor True False ''web'' SelExited
      \<lparr>fpc = ReadFailed EOF, lastMessageTime = 0, sinceTime = 0\<rparr>
     = Some (\<lparr>fpc = Return (WithContext ''recv log stream'' EOF), lastMessageTime = 0,
               sinceTime = 0\<rparr>, [], [''web - The container exited.'' @ [CHR 0x0A]])"
    by (simp add: exampleColor_def)
  from w b have 2: "formatOverride (fallback exampleParse web0) = []"
    by blast
  from w have 3: "printLine exampleColor False
        \<lparr>fromContainer = ''web'', message = ''listening'', loggedAt = 0,
         formatOverride = ''status''\<rparr> = ''status''"
    by simp
  show ?thesis using 1 2 3 by blast
qed

section \<open>The completion counter\<close>

lemma reader_step_cases:
  assumes "reader_step tp col cmd i a s = Some s'"
  shows "i < length (readers s) \<and> i < length (Services cmd) \<and>
    ((\<exists>ev f f' sent errs. a = Fwd ev \<and> readers s ! i = Forwarding f
         \<and> forwardLogs_step tp col (Follow cmd) (hideServiceName cmd) (Services cmd ! i) ev f
             = Some (f', sent, errs)
         \<and> (ev = SelDone \<longrightarrow> cancelled s)
         \<and> (sent \<noteq> [] \<longrightarrow> length (chan s) < capacity cmd)
         \<and> s' = s\<lparr>readers := (readers s)[i :=
                       (case fpc f' of Return err \<Rightarrow> LockDec err | _ \<Rightarrow> Forwarding f')],
                   chan := chan s @ sent, stderr := stderr s @ errs\<rparr>)
     \<or> (\<exists>err. a = Lock \<and> readers s ! i = LockDec err \<and> mutex s = None
         \<and> s' = s\<lparr>readers := (readers s)[i := Dec err], mutex := Some (Reader i)\<rparr>)
     \<or> (\<exists>err. a = Access \<and> readers s ! i = Dec err
         \<and> s' = s\<lparr>readers := (readers s)[i := UnlockDec err],
                   runningCount := runningCount s - 1,
                   watcher := (if runningCount s - 1 = 0 then Signal (watcher s)
                               else watcher s)\<rparr>)
     \<or> (\<exists>err. a = Unlock \<and> readers s ! i = UnlockDec err
         \<and> s' = s\<lparr>readers := (readers s)[i :=
                       (if err = Canceled then Exited
                        else if \<not> Follow cmd then Exited else WaitRestart)],
                   mutex := None\<rparr>)
     \<or> (a = GoDone \<and> readers s ! i = WaitRestart \<and> cancelled s
         \<and> s' = s\<lparr>readers := (readers s)[i := Exited]\<rparr>)
     \<or> (a = GoRunning \<and> readers s ! i = WaitRestart
         \<and> s' = s\<lparr>readers := (readers s)[i := LockInc],
                   stderr := stderr s @
                     [printStatusMessage col (Services cmd ! i)
                        ''The service has restarted, reconnecting...'' (hideServiceName cmd)]\<rparr>)
     \<or> (a = Lock \<and> readers s ! i = LockInc \<and> mutex s = None
         \<and> s' = s\<lparr>readers := (readers s)[i := Inc], mutex := Some (Reader i)\<rparr>)
     \<or> (a = Access \<and> readers s ! i = Inc
         \<and> s' = s\<lparr>readers := (readers s)[i := UnlockInc],
                   runningCount := runningCount s + 1\<rparr>)
     \<or> (a = Unlock \<and> readers s ! i = UnlockInc
         \<and> s' = s\<lparr>readers := (readers s)[i := Forwarding forwarder0], mutex := None\<rparr>))"
proof -
  have b: "i < length (readers s) \<and> i < length (Services cmd)"
    using assms by (auto simp: reader_step_def split: if_splits)
  show ?thesis
    using assms b
    by (cases "readers s ! i"; cases a)
       (auto simp: reader_step_def simp del: forwardLogs_step.simps
             split: if_splits option.splits)
qed

lemma watcher_step_cases:
  assumes "watcher_step s = Some s'"
  shows "(watcher s = WLock \<and> mutex s = None \<and> s' = s\<lparr>watcher := WCheck, mutex := Some Watcher\<rparr>)
     \<or> (watcher s = WCheck \<and> 0 < runningCount s \<and> s' = s\<lparr>watcher := WWait, mutex := None\<rparr>)
     \<or> (watcher s = WCheck \<and> \<not> 0 < runningCount s \<and> s' = s\<lparr>watcher := WUnlock\<rparr>)
     \<or> (watcher s = WWoken \<and> mutex s = None \<and> s' = s\<lparr>watcher := WCheck, mutex := Some Watcher\<rparr>)
     \<or> (watcher s = WUnlock \<and> s' = s\<lparr>watcher := WCancel, mutex := None\<rparr>)
     \<or> (watcher s = WCancel \<and> s' = s\<lparr>watcher := WDone, cancelled := True\<rparr>)"
  using assms by (cases "watcher s") (auto simp: watcher_step_def split: if_splits)

lemma printer_step_cases:
  assumes "printer_step tp col cmd sel s = Some s'"
  shows "\<exists>ev p'. printer_event sel s = Some ev
           \<and> printLogs_step tp col (hideServiceName cmd) ev (prt s) = Some p'
           \<and> s' = s\<lparr>prt := p', chan := (case ev of Recv l \<Rightarrow> tl (chan s) | _ \<Rightarrow> chan s)\<rparr>"
  using assms
  by (auto simp: printer_step_def simp del: printLogs_step.simps split: option.splits)

lemma count_update:
  "i < length xs \<Longrightarrow>
   int (length (filter pr (xs[i := y])))
     = int (length (filter pr xs)) - of_bool (pr (xs ! i)) + of_bool (pr y)"
proof (induction xs arbitrary: i)
  case Nil
  then show ?case by simp
next
  case (Cons x xs)
  show ?case
  proof (cases i)
    case 0
    then show ?thesis by simp
  next
    case (Suc j)
    with Cons.prems have "j < length xs" by simp
    from Cons.IH [OF this] Suc show ?thesis by simp
  qed
qed

lemma locked_iff:
  "locked s \<longleftrightarrow>
     (\<forall>i < length (readers s). holds (readers s ! i) = (mutex s = Some (Reader i)))
     \<and> wholds (watcher s) = (mutex s = Some Watcher)
     \<and> (\<forall>i. mutex s = Some (Reader i) \<longrightarrow> i < length (readers s))"
  by (auto simp: locked_def list_all_iff split: option.splits proc.splits)

lemma running_fwd: "running (case fpc f' of Return err \<Rightarrow> LockDec err | _ \<Rightarrow> Forwarding f')"
  by (cases "fpc f'") simp_all

lemma holds_fwd: "\<not> holds (case fpc f' of Return err \<Rightarrow> LockDec err | _ \<Rightarrow> Forwarding f')"
  by (cases "fpc f'") simp_all

lemma reader_step_counted:
  assumes "reader_step tp col cmd i a s = Some s'" and "counted s"
  shows "counted s'"
  using reader_step_cases [OF assms(1)] assms(2)
  by (elim conjE disjE exE) (simp_all add: counted_def count_update running_fwd)

lemma reader_step_locked:
  assumes "reader_step tp col cmd i a s = Some s'" and "locked s"
  shows "locked s'"
  using reader_step_cases [OF assms(1)] assms(2)
  by (elim conjE disjE exE) (auto simp: locked_iff nth_list_update holds_fwd Signal_def)

lemma reader_step_parked:
  assumes "reader_step tp col cmd i a s = Some s'" and "parked s" and "counted s"
  shows "parked s'"
proof -
  have pos: "0 < runningCount s" if "i < length (readers s)" "readers s ! i = Dec e" for e
  proof -
    have "readers s ! i \<in> set (readers s)"
      using that(1) by (rule nth_mem)
    then have "readers s ! i \<in> set (filter running (readers s))"
      using that(2) by simp
    then have "0 < length (filter running (readers s))"
      by (cases "filter running (readers s)") auto
    with assms(3) show ?thesis by (simp add: counted_def)
  qed
  show ?thesis
    using reader_step_cases [OF assms(1)] assms(2) pos
    by (elim conjE disjE exE) (auto simp: parked_def Signal_def split: if_splits)
qed

lemma reader_step_length:
  assumes "reader_step tp col cmd i a s = Some s'"
  shows "length (readers s') = length (readers s)"
  using reader_step_cases [OF assms]
  by (elim conjE disjE exE) simp_all

lemma step_invariant:
  assumes "step tp col cmd lbl s = Some s'" and "invariant cmd s"
  shows "invariant cmd s'"
proof (cases lbl)
  case (R i a)
  with assms(1) have r: "reader_step tp col cmd i a s = Some s'"
    by (simp add: step_def)
  show ?thesis
    using assms(2) reader_step_counted [OF r] reader_step_locked [OF r]
      reader_step_parked [OF r] reader_step_length [OF r]
    by (simp add: invariant_def)
next
  case W
  with assms(1) have w: "watcher_step s = Some s'"
    by (simp add: step_def)
  show ?thesis
    using watcher_step_cases [OF w] assms(2)
    by (elim conjE disjE) (auto simp: invariant_def counted_def locked_iff parked_def)
next
  case Interrupt
  with assms show ?thesis
    by (auto simp: step_def invariant_def counted_def locked_iff parked_def)
next
  case (P sel)
  with assms(1) have "printer_step tp col cmd sel s = Some s'"
    by (simp add: step_def)
  from printer_step_cases [OF this] assms(2) show ?thesis
    by (auto simp: invariant_def counted_def locked_iff parked_def)
qed

lemma init_invariant: "invariant cmd (init cmd)"
  by (simp add: invariant_def init_def counted_def locked_iff parked_def forwarder0_def)

lemma run_invariant:
  assumes "run tp col cmd lbls s = Some s'" and "invariant cmd s"
  shows "invariant cmd s'"
  using assms
proof (induction lbls arbitrary: s)
  case Nil
  then show ?case by simp
next
  case (Cons lbl lbls)
  from Cons.prems(1) obtain u where u: "step tp col cmd lbl s = Some u"
    and r: "run tp col cmd lbls u = Some s'"
    by (auto split: option.splits)
  from step_invariant [OF u Cons.prems(2)] Cons.IH [OF r] show ?case by blast
qed

lemma step_delta:
  assumes "step tp col cmd lbl s = Some s'"
  shows "runningCount s' = runningCount s + delta lbl s"
proof (cases lbl)
  case (R i a)
  with assms have r: "reader_step tp col cmd i a s = Some s'"
    by (simp add: step_def)
  show ?thesis
    using reader_step_cases [OF r] R
    by (elim conjE disjE exE) (simp_all add: delta_def)
next
  case W
  with assms have w: "watcher_step s = Some s'"
    by (simp add: step_def)
  show ?thesis
    using watcher_step_cases [OF w] W
    by (elim conjE disjE) (simp_all add: delta_def)
next
  case Interrupt
  with assms show ?thesis
    by (auto simp: step_def delta_def)
next
  case (P sel)
  with assms have "printer_step tp col cmd sel s = Some s'"
    by (simp add: step_def)
  from printer_step_cases [OF this] P show ?thesis
    by (auto simp: delta_def)
qed

lemma step_accessor:
  assumes "step tp col cmd lbl s = Some s'" and "locked s" and "accessor lbl s = Some p"
  shows "mutex s = Some p"
proof (cases lbl)
  case (R i a)
  with assms(1) have r: "reader_step tp col cmd i a s = Some s'"
    by (simp add: step_def)
  from assms(3) R have a: "a = Access" and p: "p = Reader i"
    by (auto simp: accessor_def split: act.splits)
  from reader_step_cases [OF r] a have "i < length (readers s) \<and> holds (readers s ! i)"
    by (elim conjE disjE exE) simp_all
  with assms(2) p show ?thesis
    by (auto simp: locked_iff)
next
  case W
  with assms(3) have "watcher s = WCheck" and "p = Watcher"
    by (auto simp: accessor_def split: if_splits)
  with assms(2) show ?thesis
    by (simp add: locked_iff)
next
  case Interrupt
  with assms(3) show ?thesis by (simp add: accessor_def)
next
  case (P sel)
  with assms(3) show ?thesis by (simp add: accessor_def)
qed

text \<open>
  Claim C4. \<open>runningCount\<close> starts at the number of services \<open>N\<close> and in every
  reachable state lies between \<open>0\<close> and \<open>N\<close>: it is the number of goroutines that
  are running, a goroutine ceasing to count at the one decrement that follows each
  return of \<open>forwardLogs\<close> and counting again from the one increment that follows a
  restart. A step changes the counter only by that decrement or increment, and
  every step that reads or writes the counter is taken by the goroutine that holds
  the mutex.
\<close>

theorem runningCount_bounds:
  assumes "run tp col cmd lbls (init cmd) = Some s"
  shows "runningCount (init cmd) = int (length (Services cmd))
     \<and> 0 \<le> runningCount s \<and> runningCount s \<le> int (length (Services cmd))
     \<and> runningCount s = int (length (filter running (readers s)))
     \<and> (\<forall>lbl s'. step tp col cmd lbl s = Some s' \<longrightarrow>
            runningCount s' = runningCount s + delta lbl s
            \<and> (\<forall>p. accessor lbl s = Some p \<longrightarrow> mutex s = Some p))"
proof -
  have inv: "invariant cmd s"
    using run_invariant [OF assms init_invariant] .
  then have c: "runningCount s = int (length (filter running (readers s)))"
    and l: "length (readers s) = length (Services cmd)" and k: "locked s"
    by (simp_all add: invariant_def counted_def)
  have "length (filter running (readers s)) \<le> length (readers s)"
    by (rule length_filter_le)
  with c l have b: "0 \<le> runningCount s \<and> runningCount s \<le> int (length (Services cmd))"
    by simp
  have "runningCount (init cmd) = int (length (Services cmd))"
    by (simp add: init_def)
  with b c step_delta step_accessor [OF _ k] show ?thesis
    by blast
qed

theorem runningCount_bounds_witness:
  "run exampleParse exampleColor \<lparr>Services = [''web''], Follow = True\<rparr>
     [R 0 (Fwd StreamOk), R 0 (Fwd (ReadString [] (Some EOF) 63713433600200000000)),
      R 0 (Fwd SelExited), R 0 Lock, R 0 Access, R 0 Unlock, R 0 GoRunning, R 0 Lock]
     (init \<lparr>Services = [''web''], Follow = True\<rparr>)
   = Some \<lparr>readers = [Inc], runningCount = 0, mutex = Some (Reader 0), watcher = WLock,
           cancelled = False,
           chan = [\<lparr>error = Some EOF, rawLogLine.fromContainer = ''web'',
                    rawLogLine.message = [], receivedAt = 63713433600200000000\<rparr>],
           closed = False, prt = printer0,
           stderr = [''The container exited.'' @ [CHR 0x0A],
                     ''The service has restarted, reconnecting...'' @ [CHR 0x0A]]\<rparr>
   \<and> step exampleParse exampleColor \<lparr>Services = [''web''], Follow = True\<rparr> (R 0 Access)
       \<lparr>readers = [Inc], runningCount = 0, mutex = Some (Reader 0), watcher = WLock,
           cancelled = False,
           chan = [\<lparr>error = Some EOF, rawLogLine.fromContainer = ''web'',
                    rawLogLine.message = [], receivedAt = 63713433600200000000\<rparr>],
           closed = False, prt = printer0,
           stderr = [''The container exited.'' @ [CHR 0x0A],
                     ''The service has restarted, reconnecting...'' @ [CHR 0x0A]]\<rparr>
   = Some \<lparr>readers = [UnlockInc], runningCount = 1, mutex = Some (Reader 0), watcher = WLock,
           cancelled = False,
           chan = [\<lparr>error = Some EOF, rawLogLine.fromContainer = ''web'',
                    rawLogLine.message = [], receivedAt = 63713433600200000000\<rparr>],
           closed = False, prt = printer0,
           stderr = [''The container exited.'' @ [CHR 0x0A],
                     ''The service has restarted, reconnecting...'' @ [CHR 0x0A]]\<rparr>
   \<and> (1 :: int) = 0 + delta (R 0 Access)
       \<lparr>readers = [Inc], runningCount = 0, mutex = Some (Reader 0), watcher = WLock,
           cancelled = False,
           chan = [\<lparr>error = Some EOF, rawLogLine.fromContainer = ''web'',
                    rawLogLine.message = [], receivedAt = 63713433600200000000\<rparr>],
           closed = False, prt = printer0,
           stderr = [''The container exited.'' @ [CHR 0x0A],
                     ''The service has restarted, reconnecting...'' @ [CHR 0x0A]]\<rparr>"
proof -
  let ?cmd = "\<lparr>Services = [''web''], Follow = True\<rparr>"
  let ?s = "\<lparr>readers = [Inc], runningCount = 0, mutex = Some (Reader 0), watcher = WLock,
           cancelled = False,
           chan = [\<lparr>error = Some EOF, rawLogLine.fromContainer = ''web'',
                    rawLogLine.message = [], receivedAt = 63713433600200000000\<rparr>],
           closed = False, prt = printer0,
           stderr = [''The container exited.'' @ [CHR 0x0A],
                     ''The service has restarted, reconnecting...'' @ [CHR 0x0A]]\<rparr>"
  have r: "run exampleParse exampleColor ?cmd
     [R 0 (Fwd StreamOk), R 0 (Fwd (ReadString [] (Some EOF) 63713433600200000000)),
      R 0 (Fwd SelExited), R 0 Lock, R 0 Access, R 0 Unlock, R 0 GoRunning, R 0 Lock]
     (init ?cmd) = Some ?s"
    by code_simp
  have st: "step exampleParse exampleColor ?cmd (R 0 Access) ?s
     = Some (?s\<lparr>readers := [UnlockInc], runningCount := 1\<rparr>)"
    by (simp add: step_def reader_step_def)
  from runningCount_bounds [OF r] st
  have "runningCount (?s\<lparr>readers := [UnlockInc], runningCount := 1\<rparr>)
          = runningCount ?s + delta (R 0 Access) ?s"
    by blast
  with r st show ?thesis by simp
qed

section \<open>Completion when not following\<close>

lemma not_running_exited:
  "\<not> running g \<Longrightarrow> \<not> holds g \<Longrightarrow> \<not> restarting g \<Longrightarrow> g = Exited"
  by (cases g) simp_all

lemma restarting_fwd:
  "\<not> restarting (case fpc f' of Return err \<Rightarrow> LockDec err | _ \<Rightarrow> Forwarding f')"
  by (cases "fpc f'") simp_all

lemma list_all_update:
  "list_all pr xs \<Longrightarrow> pr y \<Longrightarrow> list_all pr (xs[i := y])"
  by (auto simp: list_all_iff dest: set_update_subset_insert [THEN subsetD])

lemma all_Exited_nth:
  "list_all (\<lambda>g. g = Exited) xs \<Longrightarrow> i < length xs \<Longrightarrow> xs ! i = Exited"
  by (simp add: list_all_length)

lemma reader_step_completing:
  assumes "reader_step tp col cmd i a s = Some s'" and "completing s" and "\<not> Follow cmd"
  shows "completing s'"
proof -
  note c = reader_step_cases [OF assms(1)]
  from c have i: "i < length (readers s)" by simp
  have nr: "\<not> restarting (readers s ! i)"
    using assms(2) i by (simp add: completing_def list_all_length)
  have live: "\<not> wpast (watcher s)" "\<not> cancelled s" "mode (prt s) = Selecting"
    if "readers s ! i \<noteq> Exited"
    using that assms(2) i all_Exited_nth [of "readers s" i]
    by (auto simp: completing_def split: if_splits)
  have ne: "readers s ! i \<noteq> Exited"
    using c by (elim conjE disjE exE) simp_all
  show ?thesis
    using c assms(2,3) nr live [OF ne]
    by (elim conjE disjE exE)
       (auto simp: completing_def list_all_update restarting_fwd Signal_def)
qed

lemma no_running_all_exited:
  assumes "invariant cmd s" and "completing s" and "watcher s = WCheck"
    and "\<not> 0 < runningCount s"
  shows "list_all (\<lambda>g. g = Exited) (readers s)"
proof -
  from assms(1) have c: "runningCount s = int (length (filter running (readers s)))"
    and l: "locked s"
    by (simp_all add: invariant_def counted_def)
  from c assms(4) have "filter running (readers s) = []" by simp
  then have nrun: "\<forall>g \<in> set (readers s). \<not> running g"
    by (simp add: filter_empty_conv)
  from l assms(3) have "mutex s = Some Watcher"
    by (simp add: locked_iff)
  with l have nhold: "\<forall>i < length (readers s). \<not> holds (readers s ! i)"
    by (simp add: locked_iff)
  from assms(2) have nres: "\<forall>g \<in> set (readers s). \<not> restarting g"
    by (simp add: completing_def list_all_iff)
  show ?thesis
    unfolding list_all_length
  proof (intro allI impI)
    fix i assume i: "i < length (readers s)"
    then have "readers s ! i \<in> set (readers s)" by (rule nth_mem)
    with nrun nres nhold i show "readers s ! i = Exited"
      by (intro not_running_exited) auto
  qed
qed

lemma watcher_step_completing:
  assumes "watcher_step s = Some s'" and "completing s" and "invariant cmd s"
  shows "completing s'"
  using watcher_step_cases [OF assms(1)] assms(2) no_running_all_exited [OF assms(3,2)]
  by (elim conjE disjE) (auto simp: completing_def split: if_splits)

lemma printer_step_completing:
  assumes "printer_step tp col cmd sel s = Some s'" and "completing s"
  shows "completing s'"
proof -
  from printer_step_cases [OF assms(1)] obtain ev p' where
    ev: "printer_event sel s = Some ev"
    and p: "printLogs_step tp col (hideServiceName cmd) ev (prt s) = Some p'"
    and s': "s' = s\<lparr>prt := p', chan := (case ev of Recv l \<Rightarrow> tl (chan s) | _ \<Rightarrow> chan s)\<rparr>"
    by blast
  from assms(2) have nc: "\<not> closed s" by (simp add: completing_def)
  show ?thesis
  proof (cases "mode (prt s)")
    case Selecting
    with ev p s' assms(2) nc show ?thesis
      by (cases sel; cases ev)
         (auto simp: completing_def printer_event_def returnNil_def
               split: if_splits list.splits)
  next
    case Draining
    with ev p s' assms(2) nc show ?thesis
      by (cases sel; cases ev)
         (auto simp: completing_def printer_event_def returnNil_def
               split: if_splits list.splits)
  next
    case Returned
    with p show ?thesis by simp
  qed
qed

lemma step_completing:
  assumes "step tp col cmd lbl s = Some s'" and "lbl \<noteq> Interrupt" and "\<not> Follow cmd"
    and "completing s" and "invariant cmd s"
  shows "completing s'"
proof (cases lbl)
  case (R i a)
  with assms(1) have "reader_step tp col cmd i a s = Some s'"
    by (simp add: step_def)
  from reader_step_completing [OF this assms(4,3)] show ?thesis .
next
  case W
  with assms(1) have "watcher_step s = Some s'"
    by (simp add: step_def)
  from watcher_step_completing [OF this assms(4,5)] show ?thesis .
next
  case Interrupt
  with assms(2) show ?thesis by simp
next
  case (P sel)
  with assms(1) have "printer_step tp col cmd sel s = Some s'"
    by (simp add: step_def)
  from printer_step_completing [OF this assms(4)] show ?thesis .
qed

lemma init_completing: "completing (init cmd)"
  by (simp add: completing_def init_def printer0_def list_all_iff)

lemma run_completing:
  assumes "run tp col cmd lbls s = Some s'" and "Interrupt \<notin> set lbls" and "\<not> Follow cmd"
    and "completing s" and "invariant cmd s"
  shows "completing s' \<and> invariant cmd s'"
  using assms
proof (induction lbls arbitrary: s)
  case Nil
  then show ?case by simp
next
  case (Cons lbl lbls)
  from Cons.prems(1) obtain u where u: "step tp col cmd lbl s = Some u"
    and r: "run tp col cmd lbls u = Some s'"
    by (auto split: option.splits)
  from Cons.prems(2) have n: "lbl \<noteq> Interrupt" "Interrupt \<notin> set lbls" by auto
  have "completing u"
    using step_completing [OF u n(1) Cons.prems(3,4,5)] .
  moreover have "invariant cmd u"
    using step_invariant [OF u Cons.prems(5)] .
  ultimately show ?case
    using Cons.IH [OF r n(2) Cons.prems(3)] by blast
qed

lemma rank_update:
  "i < length xs \<Longrightarrow>
   sum_list (map rank (xs[i := y])) + rank (xs ! i) = sum_list (map rank xs) + rank y"
proof (induction xs arbitrary: i)
  case Nil
  then show ?case by simp
next
  case (Cons x xs)
  show ?case
  proof (cases i)
    case 0
    then show ?thesis by simp
  next
    case (Suc j)
    with Cons.prems have "j < length xs" by simp
    from Cons.IH [OF this] Suc show ?thesis by simp
  qed
qed

lemma rank_le: "i < length xs \<Longrightarrow> rank (xs ! i) \<le> sum_list (map rank xs)"
  using rank_update [of i xs "xs ! i"] by (simp add: member_le_sum_list)

lemma rank_update_eq:
  "i < length xs \<Longrightarrow>
   sum_list (map rank (xs[i := y])) = sum_list (map rank xs) - rank (xs ! i) + rank y"
  using rank_update [of i xs y] rank_le [of i xs] by linarith

lemma reader_step_remaining:
  assumes "reader_step tp col cmd i a s = Some s'" and "\<not> Follow cmd"
    and "allReturned s" and "completing s"
  shows "remaining s' < remaining s \<and> allReturned s'"
proof -
  note c = reader_step_cases [OF assms(1)]
  from c have i: "i < length (readers s)" by simp
  have nf: "\<not> forwarding (readers s ! i)"
    using assms(3) i by (simp add: allReturned_def list_all_length)
  have nr: "\<not> restarting (readers s ! i)"
    using assms(4) i by (simp add: completing_def list_all_length)
  have w: "wrank (Signal w) \<le> wrank w + 3" for w
    by (cases w) (simp_all add: Signal_def)
  show ?thesis
    using c nf nr assms(2,3) rank_le [OF i] w [of "watcher s"]
    by (elim conjE disjE exE)
       (auto simp: remaining_def allReturned_def list_all_update rank_update_eq)
qed

lemma watcher_step_remaining:
  assumes "watcher_step s = Some s'" and "allReturned s"
  shows "remaining s' < remaining s \<and> allReturned s'"
  using watcher_step_cases [OF assms(1)] assms(2)
  by (elim conjE disjE) (auto simp: remaining_def allReturned_def)

lemma printer_step_remaining:
  assumes "printer_step tp col cmd sel s = Some s'" and "allReturned s"
  shows "remaining s' < remaining s \<and> allReturned s'"
proof -
  from printer_step_cases [OF assms(1)] obtain ev p' where
    ev: "printer_event sel s = Some ev"
    and p: "printLogs_step tp col (hideServiceName cmd) ev (prt s) = Some p'"
    and s': "s' = s\<lparr>prt := p', chan := (case ev of Recv l \<Rightarrow> tl (chan s) | _ \<Rightarrow> chan s)\<rparr>"
    by blast
  show ?thesis
  proof (cases "mode (prt s)")
    case Selecting
    with ev p s' assms(2) show ?thesis
      by (cases sel; cases ev)
         (auto simp: remaining_def allReturned_def printer_event_def returnNil_def
               split: if_splits list.splits)
  next
    case Draining
    with ev p s' assms(2) show ?thesis
      by (cases sel; cases ev)
         (auto simp: remaining_def allReturned_def printer_event_def returnNil_def
               split: if_splits list.splits)
  next
    case Returned
    with p show ?thesis by simp
  qed
qed

lemma step_remaining:
  assumes "step tp col cmd lbl s = Some s'" and "lbl \<noteq> Interrupt" and "\<not> Follow cmd"
    and "allReturned s" and "completing s"
  shows "remaining s' < remaining s \<and> allReturned s'"
proof (cases lbl)
  case (R i a)
  with assms(1) have "reader_step tp col cmd i a s = Some s'"
    by (simp add: step_def)
  from reader_step_remaining [OF this assms(3,4,5)] show ?thesis .
next
  case W
  with assms(1) have "watcher_step s = Some s'"
    by (simp add: step_def)
  from watcher_step_remaining [OF this assms(4)] show ?thesis .
next
  case Interrupt
  with assms(2) show ?thesis by simp
next
  case (P sel)
  with assms(1) have "printer_step tp col cmd sel s = Some s'"
    by (simp add: step_def)
  from printer_step_remaining [OF this assms(4)] show ?thesis .
qed

lemma run_bounded:
  assumes "run tp col cmd lbls s = Some s'" and "Interrupt \<notin> set lbls" and "\<not> Follow cmd"
    and "allReturned s" and "completing s" and "invariant cmd s"
  shows "length lbls + remaining s' \<le> remaining s"
  using assms
proof (induction lbls arbitrary: s)
  case Nil
  then show ?case by simp
next
  case (Cons lbl lbls)
  from Cons.prems(1) obtain u where u: "step tp col cmd lbl s = Some u"
    and r: "run tp col cmd lbls u = Some s'"
    by (auto split: option.splits)
  from Cons.prems(2) have n: "lbl \<noteq> Interrupt" "Interrupt \<notin> set lbls" by auto
  from step_remaining [OF u n(1) Cons.prems(3,4,5)]
  have d: "remaining u < remaining s" and a: "allReturned u" by simp_all
  have c: "completing u"
    using step_completing [OF u n(1) Cons.prems(3,5,6)] .
  have i: "invariant cmd u"
    using step_invariant [OF u Cons.prems(6)] .
  from Cons.IH [OF r n(2) Cons.prems(3) a c i] d show ?case by simp
qed

lemma holder_moves:
  assumes "invariant cmd s" and "completing s" and "mutex s = Some (Reader j)"
  shows "\<exists>a s'. reader_step tp col cmd j a s = Some s'"
proof -
  from assms(1) have l: "locked s" and n: "length (readers s) = length (Services cmd)"
    by (simp_all add: invariant_def)
  from l assms(3) have j: "j < length (readers s)" and h: "holds (readers s ! j)"
    by (auto simp: locked_iff)
  from assms(2) j have nr: "\<not> restarting (readers s ! j)"
    by (simp add: completing_def list_all_length)
  from h nr consider e where "readers s ! j = Dec e" | e where "readers s ! j = UnlockDec e"
    by (cases "readers s ! j") simp_all
  then show ?thesis
  proof cases
    case 1
    with j n have "\<exists>s'. reader_step tp col cmd j Access s = Some s'"
      by (simp add: reader_step_def)
    then show ?thesis by blast
  next
    case 2
    with j n have "\<exists>s'. reader_step tp col cmd j Unlock s = Some s'"
      by (simp add: reader_step_def)
    then show ?thesis by blast
  qed
qed

lemma progress:
  assumes "invariant cmd s" and "completing s" and "allReturned s"
    and "mode (prt s) \<noteq> Returned"
  shows "\<exists>lbl s'. lbl \<noteq> Interrupt \<and> step tp col cmd lbl s = Some s'"
proof -
  from assms(1) have l: "locked s" and n: "length (readers s) = length (Services cmd)"
    and cnt: "runningCount s = int (length (filter running (readers s)))"
    and pk: "parked s"
    by (simp_all add: invariant_def counted_def)
  from assms(2) have nc: "\<not> closed s" and cw: "cancelled s = (watcher s = WDone)"
    by (simp_all add: completing_def)
  have held: "\<exists>lbl s'. lbl \<noteq> Interrupt \<and> step tp col cmd lbl s = Some s'"
    if "mutex s = Some pr" "\<not> wholds (watcher s)" for pr
  proof (cases pr)
    case (Reader j)
    with that(1) holder_moves [OF assms(1,2), of j tp col]
    obtain a s' where "reader_step tp col cmd j a s = Some s'" by blast
    then have "step tp col cmd (R j a) s = Some s'" by (simp add: step_def)
    then show ?thesis by blast
  next
    case Watcher
    with that l show ?thesis by (simp add: locked_iff)
  qed
  have wmove: "\<exists>lbl s'. lbl \<noteq> Interrupt \<and> step tp col cmd lbl s = Some s'"
    if "watcher_step s = Some s'" for s'
  proof -
    from that have "step tp col cmd W s = Some s'" by (simp add: step_def)
    then show ?thesis by blast
  qed
  show ?thesis
  proof (cases "mode (prt s)")
    case Returned
    with assms(4) show ?thesis by simp
  next
    case Draining
    then have "\<exists>s'. printer_step tp col cmd SRecv s = Some s'"
      using nc by (cases "chan s") (simp_all add: printer_step_def printer_event_def)
    then obtain s' where "step tp col cmd (P SRecv) s = Some s'"
      by (auto simp: step_def)
    then show ?thesis by blast
  next
    case Selecting
    show ?thesis
    proof (cases "watcher s")
      case WLock
      show ?thesis
      proof (cases "mutex s")
        case None
        with WLock show ?thesis by (intro wmove) (simp add: watcher_step_def)
      next
        case (Some pr)
        with WLock show ?thesis by (intro held) simp_all
      qed
    next
      case WCheck
      then have "\<exists>s'. watcher_step s = Some s'"
        by (simp add: watcher_step_def)
      then show ?thesis using wmove by blast
    next
      case WWait
      with pk have "0 < runningCount s" by (simp add: parked_def)
      with cnt have "filter running (readers s) \<noteq> []" by auto
      then obtain g where g: "g \<in> set (readers s)" "running g"
        by (auto simp: filter_empty_conv)
      then obtain i where i: "i < length (readers s)" "readers s ! i = g"
        by (auto simp: in_set_conv_nth)
      from assms(3) i have nf: "\<not> forwarding g"
        by (auto simp: allReturned_def list_all_length)
      from assms(2) i have nr: "\<not> restarting g"
        by (auto simp: completing_def list_all_length)
      from g(2) nf nr consider e where "g = LockDec e" | e where "g = Dec e"
        by (cases g) simp_all
      then show ?thesis
      proof cases
        case 1
        show ?thesis
        proof (cases "mutex s")
          case None
          with 1 i n have "\<exists>s'. step tp col cmd (R i Lock) s = Some s'"
            by (simp add: step_def reader_step_def)
          then show ?thesis by blast
        next
          case (Some pr)
          with WWait show ?thesis by (intro held) simp_all
        qed
      next
        case 2
        with i n have "\<exists>s'. step tp col cmd (R i Access) s = Some s'"
          by (simp add: step_def reader_step_def)
        then show ?thesis by blast
      qed
    next
      case WWoken
      show ?thesis
      proof (cases "mutex s")
        case None
        with WWoken show ?thesis by (intro wmove) (simp add: watcher_step_def)
      next
        case (Some pr)
        with WWoken show ?thesis by (intro held) simp_all
      qed
    next
      case WUnlock
      then show ?thesis by (intro wmove) (simp add: watcher_step_def)
    next
      case WCancel
      then show ?thesis by (intro wmove) (simp add: watcher_step_def)
    next
      case WDone
      with cw have "cancelled s" by simp
      with Selecting have "\<exists>s'. step tp col cmd (P SDone) s = Some s'"
        by (simp add: step_def printer_step_def printer_event_def)
      then show ?thesis by blast
    qed
  qed
qed

text \<open>
  Claim C1, as stated, fails on three counts. Two services, not following: the
  stream of \<open>web\<close> ends after a last line, the stream of \<open>db\<close> cannot be opened. Both
  goroutines return, and \<open>db\<close> has sent no terminal line: only the line of \<open>web\<close> is
  in the channel. Then the watcher cancels the context and \<open>printLogs\<close> drains the
  channel and returns, and the channel was never closed. And when an interrupt
  arrives, \<open>printLogs\<close> returns while both goroutines are still at the start of
  \<open>forwardLogs\<close>.
\<close>

theorem terminates_without_close:
  "run exampleParse exampleColor \<lparr>Services = [''web'', ''db''], Follow = False\<rparr>
     [R 0 (Fwd StreamOk),
      R 0 (Fwd (ReadString ''2020-01-01T00:00:00Z listening'' (Some EOF) 63713433600200000000)),
      R 1 (Fwd (StreamErr (StreamError ''connection refused''))),
      R 0 Lock, R 0 Access, R 0 Unlock, R 1 Lock, R 1 Access, R 1 Unlock]
     (init \<lparr>Services = [''web'', ''db''], Follow = False\<rparr>)
   = Some \<lparr>readers = [Exited, Exited], runningCount = 0, mutex = None, watcher = WLock,
           cancelled = False,
           chan = [\<lparr>error = Some EOF, rawLogLine.fromContainer = ''web'',
                    rawLogLine.message = ''2020-01-01T00:00:00Z listening'',
                    receivedAt = 63713433600200000000\<rparr>],
           closed = False, prt = printer0, stderr = []\<rparr>
   \<and> run exampleParse exampleColor \<lparr>Services = [''web'', ''db''], Follow = False\<rparr>
     [R 0 (Fwd StreamOk),
      R 0 (Fwd (ReadString ''2020-01-01T00:00:00Z listening'' (Some EOF) 63713433600200000000)),
      R 1 (Fwd (StreamErr (StreamError ''connection refused''))),
      R 0 Lock, R 0 Access, R 0 Unlock, R 1 Lock, R 1 Access, R 1 Unlock,
      W, W, W, W, P SDone, P SRecv, P SRecv]
     (init \<lparr>Services = [''web'', ''db''], Follow = False\<rparr>)
   = Some \<lparr>readers = [Exited, Exited], runningCount = 0, mutex = None, watcher = WDone,
           cancelled = True, chan = [], closed = False,
           prt = \<lparr>window = [], flushTrigger = False,
                  stdout = [''web'' @ separator @ ''listening'' @ [CHR 0x0A]],
                  mode = Returned\<rparr>,
           stderr = []\<rparr>
   \<and> run exampleParse exampleColor \<lparr>Services = [''web'', ''db''], Follow = False\<rparr>
     [Interrupt, P SDone, P SRecv]
     (init \<lparr>Services = [''web'', ''db''], Follow = False\<rparr>)
   = Some \<lparr>readers = [Forwarding forwarder0, Forwarding forwarder0], runningCount = 2,
           mutex = None, watcher = WLock, cancelled = True, chan = [], closed = False,
           prt = \<lparr>window = [], flushTrigger = False, stdout = [], mode = Returned\<rparr>,
           stderr = []\<rparr>"
  by code_simp

text \<open>
  Claim C1, amended. For a command that is not following, in a run from the start
  without an interrupt: the channel is never closed; \<open>printLogs\<close> leaves its \<open>select\<close>
  only after the context is cancelled, which happens only when \<open>runningCount\<close> is
  \<open>0\<close> and every goroutine has exited (not before); when \<open>printLogs\<close> has returned,
  the channel and the window are empty, and in the drain loop an empty channel
  makes it flush and return. Once every goroutine has returned from \<open>forwardLogs\<close>
  (after its terminal line, or after a failed open, which sends none), the run
  terminates: while \<open>printLogs\<close> has not returned some goroutine can take a step,
  and the number of steps that can still be taken is bounded.
\<close>

theorem completion_not_following:
  assumes "\<not> Follow cmd" and "Interrupt \<notin> set lbls"
    and "run tp col cmd lbls (init cmd) = Some s"
  shows "\<not> closed s
     \<and> (mode (prt s) \<noteq> Selecting \<longrightarrow>
          cancelled s \<and> runningCount s = 0 \<and> list_all (\<lambda>g. g = Exited) (readers s))
     \<and> (mode (prt s) = Returned \<longrightarrow> chan s = [] \<and> window (prt s) = [])
     \<and> (mode (prt s) = Draining \<and> chan s = [] \<longrightarrow>
          step tp col cmd (P SRecv) s
            = Some (s\<lparr>prt := returnNil tp col (hideServiceName cmd) (prt s)\<rparr>))
     \<and> (allReturned s \<and> mode (prt s) \<noteq> Returned \<longrightarrow>
          (\<exists>lbl s'. lbl \<noteq> Interrupt \<and> step tp col cmd lbl s = Some s'))
     \<and> (allReturned s \<longrightarrow>
          (\<forall>ls s'. Interrupt \<notin> set ls \<and> run tp col cmd ls s = Some s'
              \<longrightarrow> length ls \<le> remaining s))"
proof -
  from run_completing [OF assms(3,2,1) init_completing init_invariant]
  have c: "completing s" and i: "invariant cmd s" by simp_all
  from c have 1: "\<not> closed s" by (simp add: completing_def)
  have 2: "cancelled s \<and> runningCount s = 0 \<and> list_all (\<lambda>g. g = Exited) (readers s)"
    if "mode (prt s) \<noteq> Selecting"
  proof -
    from c that have k: "cancelled s" by (auto simp: completing_def split: if_splits)
    with c have "watcher s = WDone" by (simp add: completing_def)
    with c have e: "list_all (\<lambda>g. g = Exited) (readers s)"
      by (auto simp: completing_def split: if_splits)
    then have "filter running (readers s) = []"
      by (auto simp: filter_empty_conv list_all_iff)
    with i have "runningCount s = 0" by (simp add: invariant_def counted_def)
    with k e show ?thesis by simp
  qed
  from c have 3: "chan s = [] \<and> window (prt s) = []" if "mode (prt s) = Returned"
    using that by (simp add: completing_def)
  have 4: "step tp col cmd (P SRecv) s
            = Some (s\<lparr>prt := returnNil tp col (hideServiceName cmd) (prt s)\<rparr>)"
    if "mode (prt s) = Draining" "chan s = []"
    using that 1 by (simp add: step_def printer_step_def printer_event_def)
  have 5: "\<exists>lbl s'. lbl \<noteq> Interrupt \<and> step tp col cmd lbl s = Some s'"
    if "allReturned s" "mode (prt s) \<noteq> Returned"
    using progress [OF i c that] .
  have 6: "length ls \<le> remaining s"
    if "allReturned s" "Interrupt \<notin> set ls" "run tp col cmd ls s = Some s'" for ls s'
    using run_bounded [OF that(3,2) assms(1) that(1) c i] by simp
  show ?thesis using 1 2 3 4 5 6 by blast
qed

theorem completion_not_following_witness:
  "run exampleParse exampleColor \<lparr>Services = [''web''], Follow = False\<rparr>
     [R 0 (Fwd StreamOk),
      R 0 (Fwd (ReadString (''2020-01-01T00:00:00Z listening'' @ [CHR 0x0A]) None
                  63713433600200000000)),
      W, W,
      R 0 (Fwd (ReadString [] (Some EOF) 63713433600200000000)),
      R 0 Lock, R 0 Access, R 0 Unlock, P SRecv,
      W, W, W, W, P SDone, P SRecv, P SRecv]
     (init \<lparr>Services = [''web''], Follow = False\<rparr>)
   = Some \<lparr>readers = [Exited], runningCount = 0, mutex = None, watcher = WDone,
           cancelled = True, chan = [], closed = False,
           prt = \<lparr>window = [], flushTrigger = True,
                  stdout = [''listening'' @ [CHR 0x0A]], mode = Returned\<rparr>,
           stderr = []\<rparr>
   \<and> run exampleParse exampleColor \<lparr>Services = [''web''], Follow = False\<rparr>
     [R 0 (Fwd StreamOk),
      R 0 (Fwd (ReadString (''2020-01-01T00:00:00Z listening'' @ [CHR 0x0A]) None
                  63713433600200000000)),
      W, W,
      R 0 (Fwd (ReadString [] (Some EOF) 63713433600200000000))]
     (init \<lparr>Services = [''web''], Follow = False\<rparr>)
   = Some \<lparr>readers = [LockDec (WithContext ''recv log stream'' EOF)], runningCount = 1,
           mutex = None, watcher = WWait, cancelled = False,
           chan = [web0,
                   \<lparr>error = Some EOF, rawLogLine.fromContainer = ''web'',
                    rawLogLine.message = [], receivedAt = 63713433600200000000\<rparr>],
           closed = False, prt = printer0, stderr = []\<rparr>
   \<and> (\<exists>lbl s'. lbl \<noteq> Interrupt \<and>
         step exampleParse exampleColor \<lparr>Services = [''web''], Follow = False\<rparr> lbl
           \<lparr>readers = [LockDec (WithContext ''recv log stream'' EOF)], runningCount = 1,
            mutex = None, watcher = WWait, cancelled = False,
            chan = [web0,
                    \<lparr>error = Some EOF, rawLogLine.fromContainer = ''web'',
                     rawLogLine.message = [], receivedAt = 63713433600200000000\<rparr>],
            closed = False, prt = printer0, stderr = []\<rparr> = Some s')
   \<and> remaining
         \<lparr>readers = [LockDec (WithContext ''recv log stream'' EOF)], runningCount = 1,
          mutex = None, watcher = WWait, cancelled = False,
          chan = [web0,
                  \<lparr>error = Some EOF, rawLogLine.fromContainer = ''web'',
                   rawLogLine.message = [], receivedAt = 63713433600200000000\<rparr>],
          closed = False, prt = printer0, stderr = []\<rparr> = 16
   \<and> length [R 0 Lock, R 0 Access, R 0 Unlock, P SRecv, W, W, W, W, P SDone, P SRecv,
              P SRecv] \<le> (16 :: nat)"
proof -
  let ?cmd = "\<lparr>Services = [''web''], Follow = False\<rparr>"
  let ?pre = "[R 0 (Fwd StreamOk),
      R 0 (Fwd (ReadString (''2020-01-01T00:00:00Z listening'' @ [CHR 0x0A]) None
                  63713433600200000000)),
      W, W,
      R 0 (Fwd (ReadString [] (Some EOF) 63713433600200000000))]"
  let ?post = "[R 0 Lock, R 0 Access, R 0 Unlock, P SRecv, W, W, W, W, P SDone, P SRecv,
      P SRecv]"
  let ?m = "\<lparr>readers = [LockDec (WithContext ''recv log stream'' EOF)], runningCount = 1,
           mutex = None, watcher = WWait, cancelled = False,
           chan = [web0,
                   \<lparr>error = Some EOF, rawLogLine.fromContainer = ''web'',
                    rawLogLine.message = [], receivedAt = 63713433600200000000\<rparr>],
           closed = False, prt = printer0, stderr = []\<rparr>"
  let ?s = "\<lparr>readers = [Exited], runningCount = 0, mutex = None, watcher = WDone,
           cancelled = True, chan = [], closed = False,
           prt = \<lparr>window = [], flushTrigger = True,
                  stdout = [''listening'' @ [CHR 0x0A]], mode = Returned\<rparr>,
           stderr = []\<rparr>"
  have f: "\<not> Follow ?cmd" by simp
  have n: "Interrupt \<notin> set ?pre" by simp
  have n': "Interrupt \<notin> set ?post" by simp
  have r: "run exampleParse exampleColor ?cmd ?pre (init ?cmd) = Some ?m"
    by code_simp
  have r': "run exampleParse exampleColor ?cmd ?post ?m = Some ?s"
    by code_simp
  have rr: "run exampleParse exampleColor ?cmd (?pre @ ?post) (init ?cmd) = Some ?s"
    by code_simp
  have a: "allReturned ?m" by (simp add: allReturned_def)
  have md: "mode (prt ?m) \<noteq> Returned" by (simp add: printer0_def)
  have rem: "remaining ?m = 16" by (simp add: remaining_def printer0_def)
  note w = completion_not_following [OF f n r]
  from w a md have p: "\<exists>lbl s'. lbl \<noteq> Interrupt \<and>
      step exampleParse exampleColor ?cmd lbl ?m = Some s'"
    by blast
  from w a n' r' have "length ?post \<le> remaining ?m"
    by blast
  with rem have b: "length ?post \<le> (16 :: nat)" by simp
  from rr have rr': "run exampleParse exampleColor ?cmd
     [R 0 (Fwd StreamOk),
      R 0 (Fwd (ReadString (''2020-01-01T00:00:00Z listening'' @ [CHR 0x0A]) None
                  63713433600200000000)),
      W, W,
      R 0 (Fwd (ReadString [] (Some EOF) 63713433600200000000)),
      R 0 Lock, R 0 Access, R 0 Unlock, P SRecv,
      W, W, W, W, P SDone, P SRecv, P SRecv] (init ?cmd) = Some ?s"
    by simp
  show ?thesis
    using rr' r p rem b by blast
qed

end
